theory Spec2Isabelle
  imports Main "HOL-Library.Option_ord"
begin

section \<open>Machine integers\<close>

text \<open>
  \<open>size_t\<close> is a 64-bit unsigned integer. Sizes, capacities and indices are natural
  numbers below \<open>2 ^ 64\<close>; the results of \<open>size * 2\<close>, \<open>capacity_ * 2\<close> and
  \<open>++size_\<close> are truncated with \<open>size_t\<close>, as the machine does.
  \<open>MoveIterTo\<close> counts with \<open>auto curr_size = 0\<close>, an \<open>int\<close>: incrementing it at
  \<open>int_max\<close> is undefined behaviour.
\<close>

definition size_t :: "nat \<Rightarrow> nat" where
  "size_t n = n mod 2 ^ 64"

definition int_max :: nat where
  "int_max = 2 ^ 31 - 1"

section \<open>The allocator and raw storage\<close>

text \<open>
  A pointer to a block is the block's number, \<open>None\<close> is \<open>nullptr\<close>. The heap is the
  table of all blocks ever allocated: entry \<open>b\<close> is \<open>None\<close> once block \<open>b\<close> has been
  released, and otherwise the block's slots, where a slot is \<open>None\<close> while it is raw
  storage and \<open>Some x\<close> while it holds a constructed element of value \<open>x\<close>.
  \<open>trace\<close> logs every call of an allocator primitive in order; \<open>faults\<close> logs the
  events with undefined behaviour (destroying or reading a slot that holds no
  element, constructing outside a block or over a live element, releasing a block
  with a count other than its allocation count or twice, signed overflow). After a
  fault the model carries on with the heap as it is: a construction outside a block
  or over a live element writes nothing. The model follows the program up to the first
  fault of a run; what a run does is established for the program where \<open>faults\<close> is
  shown not to have grown, or to have grown only by the last allocator call of the run.
\<close>

type_synonym ptr = "nat option"

datatype event =
    Allocate nat nat
  | Deallocate ptr nat
  | Construct ptr nat
  | Destroy ptr nat
  | Read ptr nat
  | IntOverflow

record 'a heap =
  blocks :: "'a option list option list"
  trace :: "event list"
  faults :: "event list"

definition empty_heap :: "'a heap" where
  "empty_heap = \<lparr>blocks = [], trace = [], faults = []\<rparr>"

text \<open>
  The element type \<open>T\<close> and the allocator are the environment of the container:
  which allocations fail, which constructions throw (by the index of the slot under
  construction and the value constructed from), the value a default construction
  yields, and the state a move construction leaves its source in. A copy or move
  construction that returns gives the new element the value of its source.
\<close>

record 'a env =
  alloc_fails :: "nat \<Rightarrow> bool"
  default_throws :: "nat \<Rightarrow> bool"
  default_value :: 'a
  copy_throws :: "nat \<Rightarrow> 'a \<Rightarrow> bool"
  move_throws :: "nat \<Rightarrow> 'a \<Rightarrow> bool"
  moved_from :: "'a \<Rightarrow> 'a"

definition max_size :: nat where
  "max_size = 2 ^ 63 - 1"

definition block :: "'a heap \<Rightarrow> nat \<Rightarrow> 'a option list option" where
  "block h b = (if b < length (blocks h) then blocks h ! b else None)"

definition slot :: "'a heap \<Rightarrow> ptr \<Rightarrow> nat \<Rightarrow> 'a option" where
  "slot h p i =
     (case p of
        None \<Rightarrow> None
      | Some b \<Rightarrow>
          (case block h b of
             None \<Rightarrow> None
           | Some sl \<Rightarrow> if i < length sl then sl ! i else None))"

definition called :: "event \<Rightarrow> 'a heap \<Rightarrow> 'a heap" where
  "called e h = h\<lparr>trace := trace h @ [e]\<rparr>"

definition fault :: "event \<Rightarrow> 'a heap \<Rightarrow> 'a heap" where
  "fault e h = h\<lparr>faults := faults h @ [e]\<rparr>"

text \<open>
  \<open>std::allocator\<close>: \<open>allocate\<close> throws for a count above \<open>max_size\<close>
  (\<open>PTRDIFF_MAX\<close>, the bound for elements of one byte; a smaller bound for larger
  elements is part of \<open>alloc_fails\<close>) or when the environment has no memory left,
  and otherwise returns a fresh block of raw slots. \<open>deallocate\<close> of the null
  pointer does nothing.
\<close>

definition allocate :: "'a env \<Rightarrow> nat \<Rightarrow> 'a heap \<Rightarrow> (nat \<times> 'a heap) option" where
  "allocate E n h =
     (if max_size < n \<or> alloc_fails E n then None
      else Some (length (blocks h),
                 called (Allocate (length (blocks h)) n)
                   (h\<lparr>blocks := blocks h @ [Some (replicate n None)]\<rparr>)))"

definition deallocate :: "ptr \<Rightarrow> nat \<Rightarrow> 'a heap \<Rightarrow> 'a heap" where
  "deallocate p n h =
     (case p of
        None \<Rightarrow> called (Deallocate p n) h
      | Some b \<Rightarrow>
          (case block h b of
             None \<Rightarrow> fault (Deallocate p n) (called (Deallocate p n) h)
           | Some sl \<Rightarrow>
               if length sl = n
               then called (Deallocate p n) (h\<lparr>blocks := (blocks h)[b := None]\<rparr>)
               else fault (Deallocate p n)
                      (called (Deallocate p n) (h\<lparr>blocks := (blocks h)[b := None]\<rparr>))))"

definition construct :: "ptr \<Rightarrow> nat \<Rightarrow> 'a \<Rightarrow> 'a heap \<Rightarrow> 'a heap" where
  "construct p i x h =
     (case p of
        None \<Rightarrow> fault (Construct p i) (called (Construct p i) h)
      | Some b \<Rightarrow>
          (case block h b of
             None \<Rightarrow> fault (Construct p i) (called (Construct p i) h)
           | Some sl \<Rightarrow>
               if i < length sl \<and> sl ! i = None
               then called (Construct p i) (h\<lparr>blocks := (blocks h)[b := Some (sl[i := Some x])]\<rparr>)
               else fault (Construct p i) (called (Construct p i) h)))"

definition destroy :: "ptr \<Rightarrow> nat \<Rightarrow> 'a heap \<Rightarrow> 'a heap" where
  "destroy p i h =
     (case p of
        None \<Rightarrow> fault (Destroy p i) (called (Destroy p i) h)
      | Some b \<Rightarrow>
          (case block h b of
             None \<Rightarrow> fault (Destroy p i) (called (Destroy p i) h)
           | Some sl \<Rightarrow>
               if i < length sl \<and> sl ! i \<noteq> None
               then called (Destroy p i) (h\<lparr>blocks := (blocks h)[b := Some (sl[i := None])]\<rparr>)
               else fault (Destroy p i) (called (Destroy p i) h)))"

text \<open>The effect of a move construction on its source: it is left moved-from.\<close>

definition leave_moved :: "'a env \<Rightarrow> ptr \<Rightarrow> nat \<Rightarrow> 'a heap \<Rightarrow> 'a heap" where
  "leave_moved E p i h =
     (case p of
        None \<Rightarrow> h
      | Some b \<Rightarrow>
          (case block h b of
             None \<Rightarrow> h
           | Some sl \<Rightarrow>
               if i < length sl
               then h\<lparr>blocks := (blocks h)[b := Some (sl[i := map_option (moved_from E) (sl ! i)])]\<rparr>
               else h))"

text \<open>The results of \<open>T()\<close> and \<open>T(const T&)\<close> for slot \<open>i\<close>: \<open>None\<close> when it throws.\<close>

definition default_ctor :: "'a env \<Rightarrow> nat \<Rightarrow> 'a option" where
  "default_ctor E i = (if default_throws E i then None else Some (default_value E))"

definition copy_ctor :: "'a env \<Rightarrow> 'a \<Rightarrow> nat \<Rightarrow> 'a option" where
  "copy_ctor E x i = (if copy_throws E i x then None else Some x)"

text \<open>The result of \<open>T(T&&)\<close> for slot \<open>i\<close>, from an object of the caller.\<close>

definition move_ctor :: "'a env \<Rightarrow> 'a \<Rightarrow> nat \<Rightarrow> 'a option" where
  "move_ctor E x i = (if move_throws E i x then None else Some x)"

section \<open>The container\<close>

text \<open>
  The data members \<open>buffer_\<close>, \<open>size_\<close> and \<open>capacity_\<close> are the fields
  \<open>buffer_m\<close>, \<open>size_m\<close> and \<open>capacity_m\<close> (a name cannot end in an
  underscore here). The allocator member \<open>alloc_\<close> has no state of its own: every
  allocator works on the one heap.
\<close>

record vec =
  buffer_m :: ptr
  size_m :: nat
  capacity_m :: nat

datatype error = AllocationFailure | ElementOperationFailure | OutOfRange

text \<open>
  A member function takes the object's fields and the heap and returns the exception
  that left it (\<open>None\<close> for a normal return), the fields and the heap afterwards.
\<close>

type_synonym 'a outcome = "error option \<times> vec \<times> 'a heap"

definition raised :: "'a outcome \<Rightarrow> error option" where
  "raised r = fst r"

definition vec_of :: "'a outcome \<Rightarrow> vec" where
  "vec_of r = fst (snd r)"

definition heap_of :: "'a outcome \<Rightarrow> 'a heap" where
  "heap_of r = snd (snd r)"

definition Size :: "vec \<Rightarrow> nat" where
  "Size v = size_m v"

definition Capacity :: "vec \<Rightarrow> nat" where
  "Capacity v = capacity_m v"

definition Empty :: "vec \<Rightarrow> bool" where
  "Empty v = (size_m v = 0)"

definition Data :: "vec \<Rightarrow> ptr" where
  "Data v = buffer_m v"

text \<open>\<open>operator[]\<close> is unchecked: the slot's content, \<open>None\<close> where there is no element.\<close>

definition index :: "'a heap \<Rightarrow> vec \<Rightarrow> nat \<Rightarrow> 'a option" where
  "index h v idx = slot h (buffer_m v) idx"

definition At :: "'a heap \<Rightarrow> vec \<Rightarrow> nat \<Rightarrow> error + 'a option" where
  "At h v idx = (if idx \<ge> size_m v then Inl OutOfRange else Inr (index h v idx))"

text \<open>The elements \<open>begin() .. end()\<close> range over.\<close>

definition elems :: "'a heap \<Rightarrow> vec \<Rightarrow> 'a option list" where
  "elems h v = map (index h v) [0..<size_m v]"

subsection \<open>Private helpers\<close>

text \<open>
  The loop \<open>for (i = ...; i < ...; ++i) { construct(alloc_, p + i, ...); ++count; }\<close>
  over the indices \<open>is\<close>: it stops at the first construction that throws and reports
  whether one did, with \<open>count\<close>.
\<close>

fun construct_loop ::
  "(nat \<Rightarrow> 'a option) \<Rightarrow> ptr \<Rightarrow> nat list \<Rightarrow> nat \<Rightarrow> 'a heap \<Rightarrow> bool \<times> nat \<times> 'a heap" where
  "construct_loop mk p [] count h = (False, count, h)"
| "construct_loop mk p (i # is) count h =
     (case mk i of
        None \<Rightarrow> (True, count, h)
      | Some x \<Rightarrow> construct_loop mk p is (Suc count) (construct p i x h))"

text \<open>The loop \<open>for (i = a; i < b; i++) destroy(alloc_, p + i)\<close>.\<close>

definition destroy_loop :: "ptr \<Rightarrow> nat \<Rightarrow> nat \<Rightarrow> 'a heap \<Rightarrow> 'a heap" where
  "destroy_loop p a b h = fold (destroy p) [a..<b] h"

text \<open>
  \<open>CopyIterRange\<close> copies the source values into \<open>buffer_\<close> from slot 0 on; when a
  copy throws it destroys the \<open>curr_size\<close> elements it has constructed and rethrows.
  A source element that cannot be read (\<open>None\<close>) is a fault.
\<close>

fun copy_loop ::
  "'a env \<Rightarrow> ptr \<Rightarrow> 'a option list \<Rightarrow> nat \<Rightarrow> 'a heap \<Rightarrow> bool \<times> nat \<times> 'a heap" where
  "copy_loop E p [] curr_size h = (False, curr_size, h)"
| "copy_loop E p (None # xs) curr_size h =
     copy_loop E p xs (Suc curr_size) (fault (Read p curr_size) h)"
| "copy_loop E p (Some x # xs) curr_size h =
     (case copy_ctor E x curr_size of
        None \<Rightarrow> (True, curr_size, h)
      | Some y \<Rightarrow> copy_loop E p xs (Suc curr_size) (construct p curr_size y h))"

definition CopyIterRange :: "'a env \<Rightarrow> vec \<Rightarrow> 'a option list \<Rightarrow> 'a heap \<Rightarrow> bool \<times> 'a heap" where
  "CopyIterRange E v xs h =
     (case copy_loop E (buffer_m v) xs 0 h of
        (True, curr_size, h') \<Rightarrow> (True, destroy_loop (buffer_m v) 0 curr_size h')
      | (False, curr_size, h') \<Rightarrow> (False, h'))"

text \<open>
  \<open>MoveIterTo\<close> move-constructs the elements of \<open>src\<close> into \<open>buffer\<close>, slot by slot.
  Its handler is \<open>catch (...) { throw; }\<close>: when a move throws, the loop stops and
  nothing is undone. The counter \<open>curr_size\<close> is an \<open>int\<close>; the model counts in
  natural numbers and logs \<open>IntOverflow\<close> when the counter is incremented at
  \<open>INT_MAX\<close>, so a migration of more than \<open>INT_MAX\<close> elements is a run with a fault.
\<close>

fun MoveIterTo_loop ::
  "'a env \<Rightarrow> ptr \<Rightarrow> ptr \<Rightarrow> nat list \<Rightarrow> 'a heap \<Rightarrow> bool \<times> 'a heap" where
  "MoveIterTo_loop E src buffer [] h = (False, h)"
| "MoveIterTo_loop E src buffer (curr_size # is) h =
     (case slot h src curr_size of
        None \<Rightarrow> MoveIterTo_loop E src buffer is (fault (Read src curr_size) h)
      | Some x \<Rightarrow>
          if move_throws E curr_size x then (True, h)
          else
            let h1 = leave_moved E src curr_size (construct buffer curr_size x h);
                h2 = (if curr_size = int_max then fault IntOverflow h1 else h1)
            in MoveIterTo_loop E src buffer is h2)"

definition MoveIterTo :: "'a env \<Rightarrow> vec \<Rightarrow> ptr \<Rightarrow> 'a heap \<Rightarrow> bool \<times> 'a heap" where
  "MoveIterTo E v buffer h = MoveIterTo_loop E (buffer_m v) buffer [0..<size_m v] h"

text \<open>Destroying the elements and releasing the block, as the migrations and the destructor do.\<close>

definition release :: "vec \<Rightarrow> 'a heap \<Rightarrow> 'a heap" where
  "release v h = deallocate (buffer_m v) (capacity_m v) (destroy_loop (buffer_m v) 0 (size_m v) h)"

subsection \<open>Constructors and destructor\<close>

definition Vector_default :: vec where
  "Vector_default = \<lparr>buffer_m = None, size_m = 0, capacity_m = 0\<rparr>"

text \<open>
  A constructor that throws leaves no object; the fields its handler resets are
  returned all the same. The constructors from an rvalue initializer list and from an
  iterator range repeat the pattern of the first one and are left out, as is copy
  assignment.
\<close>

definition Vector_init :: "'a env \<Rightarrow> 'a list \<Rightarrow> 'a heap \<Rightarrow> 'a outcome" where
  "Vector_init E init_lst h =
     (let n = length init_lst in
      if n \<noteq> 0 then
        (case allocate E n h of
           None \<Rightarrow> (Some AllocationFailure, Vector_default, deallocate None n h)
         | Some (b, h1) \<Rightarrow>
             let v = \<lparr>buffer_m = Some b, size_m = n, capacity_m = n\<rparr> in
             (case CopyIterRange E v (map Some init_lst) h1 of
                (True, h2) \<Rightarrow>
                  (Some ElementOperationFailure, Vector_default, deallocate (Some b) n h2)
              | (False, h2) \<Rightarrow> (None, v, h2)))
      else (None, \<lparr>buffer_m = None, size_m = n, capacity_m = n\<rparr>, h))"

definition Vector_copy :: "'a env \<Rightarrow> vec \<Rightarrow> 'a heap \<Rightarrow> 'a outcome" where
  "Vector_copy E other h =
     (if size_m other \<noteq> 0 then
        (case allocate E (capacity_m other) h of
           None \<Rightarrow>
             (Some AllocationFailure, Vector_default, deallocate None (capacity_m other) h)
         | Some (b, h1) \<Rightarrow>
             let v = \<lparr>buffer_m = Some b, size_m = size_m other, capacity_m = capacity_m other\<rparr> in
             (case CopyIterRange E v (elems h other) h1 of
                (True, h2) \<Rightarrow>
                  (Some ElementOperationFailure, Vector_default,
                   deallocate (Some b) (capacity_m other) h2)
              | (False, h2) \<Rightarrow> (None, v, h2)))
      else
        (None, \<lparr>buffer_m = None, size_m = size_m other, capacity_m = capacity_m other\<rparr>, h))"

text \<open>The move constructor returns the new object and what is left of \<open>other\<close>.\<close>

definition Vector_move :: "vec \<Rightarrow> vec \<times> vec" where
  "Vector_move other =
     (\<lparr>buffer_m = buffer_m other, size_m = size_m other, capacity_m = capacity_m other\<rparr>,
      \<lparr>buffer_m = None, size_m = 0, capacity_m = 0\<rparr>)"

definition Vector_size :: "'a env \<Rightarrow> nat \<Rightarrow> 'a heap \<Rightarrow> 'a outcome" where
  "Vector_size E sz h =
     (if sz \<noteq> 0 then
        (case allocate E sz h of
           None \<Rightarrow> (Some AllocationFailure, Vector_default, deallocate None sz h)
         | Some (b, h1) \<Rightarrow>
             (case construct_loop (default_ctor E) (Some b) [0..<sz] 0 h1 of
                (True, count, h2) \<Rightarrow>
                  (Some ElementOperationFailure, Vector_default,
                   deallocate (Some b) sz (destroy_loop (Some b) 0 count h2))
              | (False, count, h2) \<Rightarrow>
                  (None, \<lparr>buffer_m = Some b, size_m = sz, capacity_m = sz\<rparr>, h2)))
      else (None, \<lparr>buffer_m = None, size_m = sz, capacity_m = sz\<rparr>, h))"

definition Vector_fill :: "'a env \<Rightarrow> nat \<Rightarrow> 'a \<Rightarrow> 'a heap \<Rightarrow> 'a outcome" where
  "Vector_fill E sz val h =
     (if sz \<noteq> 0 then
        (case allocate E sz h of
           None \<Rightarrow> (Some AllocationFailure, Vector_default, deallocate None sz h)
         | Some (b, h1) \<Rightarrow>
             (case construct_loop (copy_ctor E val) (Some b) [0..<sz] 0 h1 of
                (True, count, h2) \<Rightarrow>
                  (Some ElementOperationFailure, Vector_default,
                   deallocate (Some b) sz (destroy_loop (Some b) 0 count h2))
              | (False, count, h2) \<Rightarrow>
                  (None, \<lparr>buffer_m = Some b, size_m = sz, capacity_m = sz\<rparr>, h2)))
      else (None, \<lparr>buffer_m = None, size_m = sz, capacity_m = sz\<rparr>, h))"

definition Vector_dtor :: "vec \<Rightarrow> 'a heap \<Rightarrow> 'a heap" where
  "Vector_dtor v h = release v h"

subsection \<open>Modifiers\<close>

definition Swap :: "vec \<Rightarrow> vec \<Rightarrow> vec \<times> vec" where
  "Swap v other = (other, v)"

definition Clear :: "vec \<Rightarrow> 'a heap \<Rightarrow> vec \<times> 'a heap" where
  "Clear v h = (v\<lparr>size_m := 0\<rparr>, destroy_loop (buffer_m v) 0 (size_m v) h)"

text \<open>
  \<open>Resize(size)\<close> and \<open>Resize(size, value)\<close> are the same code but for the
  arguments of \<open>construct\<close>: \<open>mk i\<close> is the result of constructing slot \<open>i\<close>.
\<close>

definition Resize_with ::
  "'a env \<Rightarrow> (nat \<Rightarrow> 'a option) \<Rightarrow> nat \<Rightarrow> vec \<Rightarrow> 'a heap \<Rightarrow> 'a outcome" where
  "Resize_with E mk sz v h =
     (if sz = size_m v then (None, v, h)
      else if sz < size_m v then
        (None, v\<lparr>size_m := sz\<rparr>, destroy_loop (buffer_m v) sz (size_m v) h)
      else if sz \<le> capacity_m v then
        (case construct_loop mk (buffer_m v) [size_m v..<sz] 0 h of
           (True, count, h1) \<Rightarrow>
             (Some ElementOperationFailure, v,
              destroy_loop (buffer_m v) (size_m v) (size_m v + count) h1)
         | (False, count, h1) \<Rightarrow> (None, v\<lparr>size_m := sz\<rparr>, h1))
      else
        (case allocate E (size_t (sz * 2)) h of
           None \<Rightarrow> (Some AllocationFailure, v, h)
         | Some (new_buff, h1) \<Rightarrow>
             (case construct_loop mk (Some new_buff) [size_m v..<sz] 0 h1 of
                (True, count, h2) \<Rightarrow>
                  (Some ElementOperationFailure, v,
                   deallocate (Some new_buff) (capacity_m v)
                     (destroy_loop (Some new_buff) (size_m v) (size_m v + count) h2))
              | (False, count, h2) \<Rightarrow>
                  (case MoveIterTo E v (Some new_buff) h2 of
                     (True, h3) \<Rightarrow>
                       (Some ElementOperationFailure, v,
                        deallocate (Some new_buff) (capacity_m v)
                          (destroy_loop (Some new_buff) (size_m v) (size_m v + count) h3))
                   | (False, h3) \<Rightarrow>
                       (None,
                        \<lparr>buffer_m = Some new_buff, size_m = sz,
                         capacity_m = size_t (sz * 2)\<rparr>,
                        release v h3)))))"

definition Resize :: "'a env \<Rightarrow> nat \<Rightarrow> vec \<Rightarrow> 'a heap \<Rightarrow> 'a outcome" where
  "Resize E sz v h = Resize_with E (default_ctor E) sz v h"

definition Resize_value :: "'a env \<Rightarrow> nat \<Rightarrow> 'a \<Rightarrow> vec \<Rightarrow> 'a heap \<Rightarrow> 'a outcome" where
  "Resize_value E sz val v h = Resize_with E (copy_ctor E val) sz v h"

definition Reserve :: "'a env \<Rightarrow> nat \<Rightarrow> vec \<Rightarrow> 'a heap \<Rightarrow> 'a outcome" where
  "Reserve E capacity v h =
     (if capacity_m v < capacity then
        (case allocate E capacity h of
           None \<Rightarrow> (Some AllocationFailure, v, h)
         | Some (new_buff, h1) \<Rightarrow>
             (case MoveIterTo E v (Some new_buff) h1 of
                (True, h2) \<Rightarrow> (Some ElementOperationFailure, v, h2)
              | (False, h2) \<Rightarrow>
                  (None, v\<lparr>buffer_m := Some new_buff, capacity_m := capacity\<rparr>, release v h2)))
      else (None, v, h))"


text \<open>
  \<open>EmplaceBack(args...)\<close>: \<open>arg\<close> is the result of \<open>T(args...)\<close>, \<open>None\<close> when the
  constructor throws. Every handler calls \<open>destroy\<close> on the slot of the new element.
\<close>

definition EmplaceBack :: "'a env \<Rightarrow> 'a option \<Rightarrow> vec \<Rightarrow> 'a heap \<Rightarrow> 'a outcome" where
  "EmplaceBack E arg v h =
     (if size_m v < capacity_m v then
        (case arg of
           None \<Rightarrow> (Some ElementOperationFailure, v, destroy (buffer_m v) (size_m v) h)
         | Some x \<Rightarrow>
             (None, v\<lparr>size_m := size_t (size_m v + 1)\<rparr>, construct (buffer_m v) (size_m v) x h))
      else if capacity_m v = 0 then
        (case allocate E 1 h of
           None \<Rightarrow> (Some AllocationFailure, v, h)
         | Some (b, h1) \<Rightarrow>
             (case arg of
                None \<Rightarrow>
                  (Some ElementOperationFailure, v,
                   deallocate (Some b) 1 (destroy (Some b) (size_m v) h1))
              | Some x \<Rightarrow>
                  (None,
                   \<lparr>buffer_m = Some b, size_m = size_t (size_m v + 1), capacity_m = 1\<rparr>,
                   construct (Some b) (size_m v) x h1)))
      else
        (case allocate E (size_t (capacity_m v * 2)) h of
           None \<Rightarrow> (Some AllocationFailure, v, h)
         | Some (new_buff, h1) \<Rightarrow>
             (case arg of
                None \<Rightarrow>
                  (Some ElementOperationFailure, v,
                   deallocate (Some new_buff) (size_t (capacity_m v * 2))
                     (destroy (Some new_buff) (size_m v) h1))
              | Some x \<Rightarrow>
                  (case MoveIterTo E v (Some new_buff) (construct (Some new_buff) (size_m v) x h1) of
                     (True, h3) \<Rightarrow>
                       (Some ElementOperationFailure, v,
                        deallocate (Some new_buff) (size_t (capacity_m v * 2))
                          (destroy (Some new_buff) (size_m v) h3))
                   | (False, h3) \<Rightarrow>
                       (None,
                        \<lparr>buffer_m = Some new_buff, size_m = size_t (size_m v + 1),
                         capacity_m = size_t (capacity_m v * 2)\<rparr>,
                        release v h3)))))"

text \<open>
  \<open>PushBack(const T& value)\<close> is \<open>EmplaceBack(value)\<close>: a copy construction.
  Every path of \<open>EmplaceBack\<close> constructs the new element before it touches an
  existing one, so an argument that is an element of the container itself,
  \<open>v.PushBack(v[i])\<close>, is read with the value it has at the call: \<open>val\<close>.
\<close>

definition PushBack :: "'a env \<Rightarrow> 'a \<Rightarrow> vec \<Rightarrow> 'a heap \<Rightarrow> 'a outcome" where
  "PushBack E val v h = EmplaceBack E (copy_ctor E val (size_m v)) v h"

text \<open>
  \<open>PushBack(T&& value)\<close> is \<open>EmplaceBack(std::move(value))\<close>: a move construction.
  \<open>PushBack_rv\<close> is the call with an object of the caller, outside the container,
  whose moved-from state is not part of the container.
\<close>

definition PushBack_rv :: "'a env \<Rightarrow> 'a \<Rightarrow> vec \<Rightarrow> 'a heap \<Rightarrow> 'a outcome" where
  "PushBack_rv E val v h = EmplaceBack E (move_ctor E val (size_m v)) v h"

text \<open>
  \<open>PushBack_element\<close> is the same call with an element of the container itself,
  \<open>v.PushBack(std::move(v[idx]))\<close>: \<open>value\<close> refers to slot \<open>idx\<close> of the buffer
  the container has at the call. The move construction of the new element leaves
  that slot moved-from, and on the growth path this happens before \<open>MoveIterTo\<close>
  migrates the slot. When the move construction throws, the slot is as before and
  the handlers are those of \<open>EmplaceBack\<close>. Reading a slot that holds no element is
  a fault, after which the model leaves the container as it is.
\<close>

definition PushBack_element :: "'a env \<Rightarrow> nat \<Rightarrow> vec \<Rightarrow> 'a heap \<Rightarrow> 'a outcome" where
  "PushBack_element E idx v h =
     (case index h v idx of
        None \<Rightarrow> (None, v, fault (Read (buffer_m v) idx) h)
      | Some val \<Rightarrow>
          (case move_ctor E val (size_m v) of
             None \<Rightarrow> EmplaceBack E None v h
           | Some x \<Rightarrow>
               if size_m v < capacity_m v then
                 (None, v\<lparr>size_m := size_t (size_m v + 1)\<rparr>,
                  leave_moved E (buffer_m v) idx (construct (buffer_m v) (size_m v) x h))
               else if capacity_m v = 0 then
                 (case allocate E 1 h of
                    None \<Rightarrow> (Some AllocationFailure, v, h)
                  | Some (b, h1) \<Rightarrow>
                      (None,
                       \<lparr>buffer_m = Some b, size_m = size_t (size_m v + 1), capacity_m = 1\<rparr>,
                       leave_moved E (buffer_m v) idx (construct (Some b) (size_m v) x h1)))
               else
                 (case allocate E (size_t (capacity_m v * 2)) h of
                    None \<Rightarrow> (Some AllocationFailure, v, h)
                  | Some (new_buff, h1) \<Rightarrow>
                      (case MoveIterTo E v (Some new_buff)
                              (leave_moved E (buffer_m v) idx
                                 (construct (Some new_buff) (size_m v) x h1)) of
                         (True, h3) \<Rightarrow>
                           (Some ElementOperationFailure, v,
                            deallocate (Some new_buff) (size_t (capacity_m v * 2))
                              (destroy (Some new_buff) (size_m v) h3))
                       | (False, h3) \<Rightarrow>
                           (None,
                            \<lparr>buffer_m = Some new_buff, size_m = size_t (size_m v + 1),
                             capacity_m = size_t (capacity_m v * 2)\<rparr>,
                            release v h3)))))"

definition PopBack :: "vec \<Rightarrow> 'a heap \<Rightarrow> vec \<times> 'a heap" where
  "PopBack v h =
     (if \<not> Empty v
      then (v\<lparr>size_m := size_m v - 1\<rparr>, destroy (buffer_m v) (size_m v - 1) h)
      else (v, h))"

subsection \<open>Move assignment\<close>

text \<open>
  \<open>operator=(Vector&& other)\<close> compares the addresses of its two objects, so the
  objects live in a store, by address. Inside the guard it builds a temporary from
  \<open>other\<close>, swaps it with \<open>*this\<close> and destroys the temporary, which by then holds
  the former fields of \<open>*this\<close>.
\<close>

type_synonym store = "nat \<Rightarrow> vec"

definition assign_move :: "nat \<Rightarrow> nat \<Rightarrow> store \<Rightarrow> 'a heap \<Rightarrow> store \<times> 'a heap" where
  "assign_move this other st h =
     (if this \<noteq> other then
        let (tmp, other') = Vector_move (st other);
            st1 = st(other := other');
            (tmp', this') = Swap tmp (st1 this)
        in (st1(this := this'), Vector_dtor tmp' h)
      else (st, h))"

subsection \<open>Comparison operators\<close>

text \<open>
  \<open>operator==\<close> compares sizes, then the elements with \<open>!=\<close> from index 0 on.
  \<open>operator<\<close> is \<open>std::lexicographical_compare\<close> over the two ranges, here its
  reference implementation: it walks both ranges while neither has ended, decides at
  the first position where one element is less than the other, and otherwise answers
  whether the first range ended and the second did not.
\<close>

fun equal_loop :: "'a heap \<Rightarrow> vec \<Rightarrow> vec \<Rightarrow> nat list \<Rightarrow> bool" where
  "equal_loop h lhs rhs [] = True"
| "equal_loop h lhs rhs (i # is) =
     (if index h lhs i \<noteq> index h rhs i then False else equal_loop h lhs rhs is)"

definition op_eq :: "'a heap \<Rightarrow> vec \<Rightarrow> vec \<Rightarrow> bool" where
  "op_eq h lhs rhs =
     (if Size lhs \<noteq> Size rhs then False else equal_loop h lhs rhs [0..<Size lhs])"

fun lexicographical_compare :: "'a::ord list \<Rightarrow> 'a list \<Rightarrow> bool" where
  "lexicographical_compare (x # xs) (y # ys) =
     (if x < y then True else if y < x then False else lexicographical_compare xs ys)"
| "lexicographical_compare [] ys = (ys \<noteq> [])"
| "lexicographical_compare xs [] = False"

definition op_lt :: "('a::linorder) heap \<Rightarrow> vec \<Rightarrow> vec \<Rightarrow> bool" where
  "op_lt h lhs rhs = lexicographical_compare (elems h lhs) (elems h rhs)"

definition op_ne :: "'a heap \<Rightarrow> vec \<Rightarrow> vec \<Rightarrow> bool" where
  "op_ne h lhs rhs = (\<not> op_eq h lhs rhs)"

definition op_gt :: "('a::linorder) heap \<Rightarrow> vec \<Rightarrow> vec \<Rightarrow> bool" where
  "op_gt h lhs rhs = op_lt h rhs lhs"

definition op_le :: "('a::linorder) heap \<Rightarrow> vec \<Rightarrow> vec \<Rightarrow> bool" where
  "op_le h lhs rhs = (\<not> op_gt h lhs rhs)"

definition op_ge :: "('a::linorder) heap \<Rightarrow> vec \<Rightarrow> vec \<Rightarrow> bool" where
  "op_ge h lhs rhs = (\<not> op_lt h lhs rhs)"

section \<open>The invariants of the container\<close>

text \<open>
  The invariants of a container \<open>v\<close> in the heap \<open>h\<close>: \<open>size_ \<le> capacity_\<close>;
  \<open>buffer_\<close> is null exactly when \<open>capacity_\<close> is 0; otherwise \<open>buffer_\<close> is a live
  block of \<open>capacity_\<close> slots of which the first \<open>size_\<close> hold elements and the others
  are raw. \<open>valid\<close> adds that the capacity is one the allocator can have granted.
\<close>

definition invariant :: "'a heap \<Rightarrow> vec \<Rightarrow> bool" where
  "invariant h v \<longleftrightarrow>
     size_m v \<le> capacity_m v \<and>
     (case buffer_m v of
        None \<Rightarrow> capacity_m v = 0
      | Some b \<Rightarrow>
          capacity_m v \<noteq> 0 \<and>
          (case block h b of
             None \<Rightarrow> False
           | Some sl \<Rightarrow>
               length sl = capacity_m v \<and>
               list_all (\<lambda>s. s \<noteq> None) (take (size_m v) sl) \<and>
               list_all (\<lambda>s. s = None) (drop (size_m v) sl)))"

definition valid :: "'a heap \<Rightarrow> vec \<Rightarrow> bool" where
  "valid h v \<longleftrightarrow> invariant h v \<and> capacity_m v \<le> max_size"

section \<open>Element types used in the examples\<close>

text \<open>
  \<open>int_env\<close> is \<open>T = int\<close> with an allocator that never fails: nothing throws, and a
  moved-from \<open>int\<close> keeps its value. \<open>fragile_env\<close> is an element type whose move
  constructor throws when it builds slot 1, whose default and copy constructors throw
  when they build slot 2, and whose moved-from state is the value 0.
\<close>

definition int_env :: "int env" where
  "int_env =
     \<lparr>alloc_fails = (\<lambda>n. False), default_throws = (\<lambda>i. False), default_value = 0,
      copy_throws = (\<lambda>i x. False), move_throws = (\<lambda>i x. False), moved_from = (\<lambda>x. x)\<rparr>"

definition fragile_env :: "int env" where
  "fragile_env =
     \<lparr>alloc_fails = (\<lambda>n. False), default_throws = (\<lambda>i. i = 2), default_value = 0,
      copy_throws = (\<lambda>i x. i = 2), move_throws = (\<lambda>i x. i = 1), moved_from = (\<lambda>x. 0)\<rparr>"

text \<open>
  \<open>brittle_env\<close> is an element type whose default and copy constructors throw when
  they build slot 3; nothing else throws, and its moved-from state is the value 0.
\<close>

definition brittle_env :: "int env" where
  "brittle_env =
     \<lparr>alloc_fails = (\<lambda>n. False), default_throws = (\<lambda>i. i = 3), default_value = 0,
      copy_throws = (\<lambda>i x. i = 3), move_throws = (\<lambda>i x. False), moved_from = (\<lambda>x. 0)\<rparr>"

text \<open>
  \<open>movable_env\<close> is an element type of which nothing throws and whose moved-from
  state is the value 0, as a smart pointer is null after a move.
\<close>

definition movable_env :: "int env" where
  "movable_env =
     \<lparr>alloc_fails = (\<lambda>n. False), default_throws = (\<lambda>i. False), default_value = 0,
      copy_throws = (\<lambda>i x. False), move_throws = (\<lambda>i x. False), moved_from = (\<lambda>x. 0)\<rparr>"


section \<open>Example states\<close>

text \<open>The heap after \<open>Vector<int> v = {5, 4, 3, 2, 1}\<close>, and after a second list.\<close>

definition heap_54321 :: "int heap" where
  "heap_54321 =
     \<lparr>blocks = [Some [Some 5, Some 4, Some 3, Some 2, Some 1]],
      trace = [Allocate 0 5, Construct (Some 0) 0, Construct (Some 0) 1, Construct (Some 0) 2,
               Construct (Some 0) 3, Construct (Some 0) 4],
      faults = []\<rparr>"

definition heap_54322 :: "int heap" where
  "heap_54322 =
     \<lparr>blocks = [Some [Some 5, Some 4, Some 3, Some 2, Some 1],
                Some [Some 5, Some 4, Some 3, Some 2, Some 2]],
      trace = [Allocate 0 5, Construct (Some 0) 0, Construct (Some 0) 1, Construct (Some 0) 2,
               Construct (Some 0) 3, Construct (Some 0) 4,
               Allocate 1 5, Construct (Some 1) 0, Construct (Some 1) 1, Construct (Some 1) 2,
               Construct (Some 1) 3, Construct (Some 1) 4],
      faults = []\<rparr>"

definition vec_54321 :: vec where
  "vec_54321 = \<lparr>buffer_m = Some 0, size_m = 5, capacity_m = 5\<rparr>"

definition vec_54322 :: vec where
  "vec_54322 = \<lparr>buffer_m = Some 1, size_m = 5, capacity_m = 5\<rparr>"

text \<open>
  \<open>Vector<T> v = {1, 2}\<close> for the fragile element type, and the heap after a
  \<open>Reserve(4)\<close> on it whose second move construction threw.
\<close>

definition vec_12 :: vec where
  "vec_12 = \<lparr>buffer_m = Some 0, size_m = 2, capacity_m = 2\<rparr>"

definition heap_12 :: "int heap" where
  "heap_12 =
     \<lparr>blocks = [Some [Some 1, Some 2]],
      trace = [Allocate 0 2, Construct (Some 0) 0, Construct (Some 0) 1],
      faults = []\<rparr>"

definition heap_12_reserve_failed :: "int heap" where
  "heap_12_reserve_failed =
     \<lparr>blocks = [Some [Some 0, Some 2], Some [Some 1, None, None, None]],
      trace = [Allocate 0 2, Construct (Some 0) 0, Construct (Some 0) 1,
               Allocate 1 4, Construct (Some 1) 0],
      faults = []\<rparr>"

text \<open>
  \<open>Vector<int> v(3)\<close>, the same after \<open>v.Clear()\<close>, and the fields of the copy
  \<open>Vector<int> w(v)\<close> made then.
\<close>

definition vec_000 :: vec where
  "vec_000 = \<lparr>buffer_m = Some 0, size_m = 3, capacity_m = 3\<rparr>"

definition heap_000 :: "int heap" where
  "heap_000 =
     \<lparr>blocks = [Some [Some 0, Some 0, Some 0]],
      trace = [Allocate 0 3, Construct (Some 0) 0, Construct (Some 0) 1, Construct (Some 0) 2],
      faults = []\<rparr>"

definition vec_cleared :: vec where
  "vec_cleared = \<lparr>buffer_m = Some 0, size_m = 0, capacity_m = 3\<rparr>"

definition heap_cleared :: "int heap" where
  "heap_cleared =
     \<lparr>blocks = [Some [None, None, None]],
      trace = [Allocate 0 3, Construct (Some 0) 0, Construct (Some 0) 1, Construct (Some 0) 2,
               Destroy (Some 0) 0, Destroy (Some 0) 1, Destroy (Some 0) 2],
      faults = []\<rparr>"

definition vec_copied :: vec where
  "vec_copied = \<lparr>buffer_m = None, size_m = 0, capacity_m = 3\<rparr>"

section \<open>Sequences of calls\<close>

text \<open>
  A sequence of \<open>PushBack\<close> calls on one container. The argument of a call is an
  lvalue or an rvalue object of the caller with the value \<open>x\<close> (overload resolution
  picks \<open>PushBack(const T&)\<close> or \<open>PushBack(T&&)\<close>), or the element in slot \<open>idx\<close>
  of the container itself passed as an rvalue, \<open>std::move(v[idx])\<close>. The sequence
  ends at the first call that throws. \<open>argument_value\<close> is the value of an object
  of the caller.
\<close>

datatype 'a argument = Lvalue 'a | Rvalue 'a | Moved_element nat

fun caller_object :: "'a argument \<Rightarrow> bool" where
  "caller_object (Lvalue x) = True"
| "caller_object (Rvalue x) = True"
| "caller_object (Moved_element idx) = False"

fun argument_value :: "'a argument \<Rightarrow> 'a option" where
  "argument_value (Lvalue x) = Some x"
| "argument_value (Rvalue x) = Some x"
| "argument_value (Moved_element idx) = None"

fun PushBack_call :: "'a env \<Rightarrow> 'a argument \<Rightarrow> vec \<Rightarrow> 'a heap \<Rightarrow> 'a outcome" where
  "PushBack_call E (Lvalue x) v h = PushBack E x v h"
| "PushBack_call E (Rvalue x) v h = PushBack_rv E x v h"
| "PushBack_call E (Moved_element idx) v h = PushBack_element E idx v h"

fun PushBack_calls :: "'a env \<Rightarrow> 'a argument list \<Rightarrow> vec \<Rightarrow> 'a heap \<Rightarrow> 'a outcome" where
  "PushBack_calls E [] v h = (None, v, h)"
| "PushBack_calls E (a # as) v h =
     (case PushBack_call E a v h of
        (None, v', h') \<Rightarrow> PushBack_calls E as v' h'
      | (Some e, v', h') \<Rightarrow> (Some e, v', h'))"

text \<open>
  The capacities a sequence of \<open>PushBack\<close> calls gives an empty container: 0 while
  it is empty, then the power of two that is at least the size and less than twice
  the size.
\<close>

definition grown :: "vec \<Rightarrow> bool" where
  "grown v \<longleftrightarrow>
     size_m v \<le> capacity_m v \<and>
     (capacity_m v = 0 \<or>
      (capacity_m v < 2 * size_m v \<and> (\<exists>k\<le>capacity_m v. capacity_m v = 2 ^ k)))"

text \<open>The states after \<open>push_back(1)\<close>, \<open>push_back(2)\<close>, \<open>push_back(3)\<close> on an empty \<open>Vector<int>\<close>.\<close>

definition vec_p1 :: vec where
  "vec_p1 = \<lparr>buffer_m = Some 0, size_m = 1, capacity_m = 1\<rparr>"

definition heap_p1 :: "int heap" where
  "heap_p1 =
     \<lparr>blocks = [Some [Some 1]],
      trace = [Allocate 0 1, Construct (Some 0) 0],
      faults = []\<rparr>"

definition vec_p2 :: vec where
  "vec_p2 = \<lparr>buffer_m = Some 1, size_m = 2, capacity_m = 2\<rparr>"

definition heap_p2 :: "int heap" where
  "heap_p2 =
     \<lparr>blocks = [None, Some [Some 1, Some 2]],
      trace = [Allocate 0 1, Construct (Some 0) 0,
               Allocate 1 2, Construct (Some 1) 1, Construct (Some 1) 0,
               Destroy (Some 0) 0, Deallocate (Some 0) 1],
      faults = []\<rparr>"

definition vec_p3 :: vec where
  "vec_p3 = \<lparr>buffer_m = Some 2, size_m = 3, capacity_m = 4\<rparr>"

definition heap_p3 :: "int heap" where
  "heap_p3 =
     \<lparr>blocks = [None, None, Some [Some 1, Some 2, Some 3, None]],
      trace = [Allocate 0 1, Construct (Some 0) 0,
               Allocate 1 2, Construct (Some 1) 1, Construct (Some 1) 0,
               Destroy (Some 0) 0, Deallocate (Some 0) 1,
               Allocate 2 4, Construct (Some 2) 2, Construct (Some 2) 0, Construct (Some 2) 1,
               Destroy (Some 1) 0, Destroy (Some 1) 1, Deallocate (Some 1) 2],
      faults = []\<rparr>"

text \<open>
  The state after \<open>v.push_back(1); v.push_back(std::move(v[0]));\<close> on an empty
  container of the movable element type.
\<close>

definition heap_moved :: "int heap" where
  "heap_moved =
     \<lparr>blocks = [None, Some [Some 0, Some 1]],
      trace = [Allocate 0 1, Construct (Some 0) 0,
               Allocate 1 2, Construct (Some 1) 1, Construct (Some 1) 0,
               Destroy (Some 0) 0, Deallocate (Some 0) 1],
      faults = []\<rparr>"





text \<open>The states after \<open>Resize(3)\<close> and after \<open>Resize(3, 7)\<close> on \<open>{1, 2}\<close> for \<open>T = int\<close>.\<close>

definition vec_r3 :: vec where
  "vec_r3 = \<lparr>buffer_m = Some 1, size_m = 3, capacity_m = 6\<rparr>"

definition heap_r3 :: "int heap" where
  "heap_r3 =
     \<lparr>blocks = [None, Some [Some 1, Some 2, Some 0, None, None, None]],
      trace = trace heap_12 @
              [Allocate 1 6, Construct (Some 1) 2, Construct (Some 1) 0, Construct (Some 1) 1,
               Destroy (Some 0) 0, Destroy (Some 0) 1, Deallocate (Some 0) 2],
      faults = []\<rparr>"

definition heap_r3v :: "int heap" where
  "heap_r3v =
     \<lparr>blocks = [None, Some [Some 1, Some 2, Some 7, None, None, None]],
      trace = trace heap_12 @
              [Allocate 1 6, Construct (Some 1) 2, Construct (Some 1) 0, Construct (Some 1) 1,
               Destroy (Some 0) 0, Destroy (Some 0) 1, Deallocate (Some 0) 2],
      faults = []\<rparr>"

text \<open>
  \<open>Vector<int> v(2147483648)\<close>: a container of \<open>2^31 = INT_MAX + 1\<close> elements.
\<close>

definition vec_big :: vec where
  "vec_big = \<lparr>buffer_m = Some 0, size_m = 2 ^ 31, capacity_m = 2 ^ 31\<rparr>"

definition heap_big :: "int heap" where
  "heap_big =
     \<lparr>blocks = [Some (replicate (2 ^ 31) (Some 0))],
      trace = Allocate 0 (2 ^ 31) # map (Construct (Some 0)) [0..<2 ^ 31],
      faults = []\<rparr>"

text \<open>Two objects: \<open>{5, 4, 3, 2, 1}\<close> at address 0 and \<open>{5, 4, 3, 2, 2}\<close> at address 1.\<close>

definition store_two :: store where
  "store_two = (\<lambda>a. Vector_default)(0 := vec_54321, 1 := vec_54322)"

(*LEMMAS*)
section \<open>Evaluation and the allocator primitives\<close>

lemmas heap_prims = allocate_def deallocate_def construct_def destroy_def leave_moved_def
  called_def fault_def block_def slot_def max_size_def int_max_def size_t_def

lemma block_blocks_cong: "blocks h' = blocks h \<Longrightarrow> block h' b = block h b"
  by (simp add: block_def)

lemma block_SomeD: "block h b = Some sl \<Longrightarrow> b < length (blocks h) \<and> blocks h ! b = Some sl"
  by (simp add: block_def split: if_splits)

lemma block_update:
  "blocks h' = (blocks h)[b := X] \<Longrightarrow> b < length (blocks h) \<Longrightarrow>
   block h' b' = (if b' = b then X else block h b')"
  by (simp add: block_def)

lemma block_called [simp]: "block (called e h) b = block h b"
  by (simp add: block_def called_def)

lemma block_fault [simp]: "block (fault e h) b = block h b"
  by (simp add: block_def fault_def)

lemma construct_ok:
  "block h b = Some sl \<Longrightarrow> i < length sl \<Longrightarrow> sl ! i = None \<Longrightarrow>
   construct (Some b) i x h =
     h\<lparr>blocks := (blocks h)[b := Some (sl[i := Some x])], trace := trace h @ [Construct (Some b) i]\<rparr>"
  by (simp add: construct_def called_def)

lemma destroy_ok:
  "block h b = Some sl \<Longrightarrow> i < length sl \<Longrightarrow> sl ! i \<noteq> None \<Longrightarrow>
   destroy (Some b) i h =
     h\<lparr>blocks := (blocks h)[b := Some (sl[i := None])], trace := trace h @ [Destroy (Some b) i]\<rparr>"
  by (simp add: destroy_def called_def)

lemma deallocate_ok:
  "block h b = Some sl \<Longrightarrow> length sl = n \<Longrightarrow>
   deallocate (Some b) n h =
     h\<lparr>blocks := (blocks h)[b := None], trace := trace h @ [Deallocate (Some b) n]\<rparr>"
  by (simp add: deallocate_def called_def)

lemma leave_moved_ok:
  "block h b = Some sl \<Longrightarrow> i < length sl \<Longrightarrow>
   leave_moved E (Some b) i h =
     h\<lparr>blocks := (blocks h)[b := Some (sl[i := map_option (moved_from E) (sl ! i)])]\<rparr>"
  by (simp add: leave_moved_def)

lemma fold_update_length [simp]: "length (fold (\<lambda>i s. s[i := g i]) is s) = length s"
  by (induction "is" arbitrary: s) auto

lemma fold_update_nth:
  "j < length s \<Longrightarrow>
   fold (\<lambda>i s. s[i := g i]) is s ! j = (if j \<in> set is then g j else s ! j)"
proof (induction "is" arbitrary: s rule: rev_induct)
  case Nil
  then show ?case by simp
next
  case (snoc i "is")
  then show ?case by (cases "i = j") auto
qed

lemma heap_blocks_same:
  "block h b = Some sl \<Longrightarrow> h\<lparr>blocks := (blocks h)[b := Some sl]\<rparr> = h"
proof -
  assume "block h b = Some sl"
  then have "(blocks h)[b := Some sl] = blocks h"
    by (simp add: block_def list_update_same_conv split: if_splits)
  then show ?thesis by simp
qed

lemma construct_loop_throws:
  "fst (construct_loop mk p is c h) \<longleftrightarrow> (\<exists>i\<in>set is. mk i = None)"
  by (induction "is" arbitrary: c h) (auto split: option.splits)

lemma construct_loop_ok:
  assumes "block h b = Some sl" and "distinct is"
    and "\<forall>i\<in>set is. i < length sl \<and> sl ! i = None \<and> mk i \<noteq> None"
  shows "construct_loop mk (Some b) is c h =
           (False, c + length is,
            h\<lparr>blocks := (blocks h)[b := Some (fold (\<lambda>i s. s[i := mk i]) is sl)],
              trace := trace h @ map (Construct (Some b)) is\<rparr>)"
  using assms
proof (induction "is" arbitrary: c h sl)
  case Nil
  then show ?case by (simp add: heap_blocks_same)
next
  case (Cons i "is")
  from Cons.prems obtain x where x: "mk i = Some x" by auto
  let ?h1 = "construct (Some b) i x h"
  have h1: "?h1 = h\<lparr>blocks := (blocks h)[b := Some (sl[i := Some x])],
                     trace := trace h @ [Construct (Some b) i]\<rparr>"
    using Cons.prems by (intro construct_ok) auto
  have b: "b < length (blocks h)" using Cons.prems(1) by (simp add: block_def split: if_splits)
  have blk: "block ?h1 b = Some (sl[i := Some x])"
    using b by (simp add: h1 block_def)
  have "construct_loop mk (Some b) is (Suc c) ?h1 =
          (False, Suc c + length is,
           ?h1\<lparr>blocks := (blocks ?h1)[b := Some (fold (\<lambda>i s. s[i := mk i]) is (sl[i := Some x]))],
               trace := trace ?h1 @ map (Construct (Some b)) is\<rparr>)"
    using Cons.prems by (intro Cons.IH [OF blk]) (auto simp: nth_list_update)
  then show ?case by (simp add: x h1)
qed

lemma destroy_loop_ok_gen:
  assumes "block h b = Some sl" and "distinct is"
    and "\<forall>i\<in>set is. i < length sl \<and> sl ! i \<noteq> None"
  shows "fold (destroy (Some b)) is h =
            h\<lparr>blocks := (blocks h)[b := Some (fold (\<lambda>i s. s[i := None]) is sl)],
              trace := trace h @ map (Destroy (Some b)) is\<rparr>"
  using assms
proof (induction "is" arbitrary: h sl)
  case Nil
  then show ?case by (simp add: heap_blocks_same)
next
  case (Cons i "is")
  let ?h1 = "destroy (Some b) i h"
  have h1: "?h1 = h\<lparr>blocks := (blocks h)[b := Some (sl[i := None])],
                     trace := trace h @ [Destroy (Some b) i]\<rparr>"
    using Cons.prems by (intro destroy_ok) auto
  have b: "b < length (blocks h)" using Cons.prems(1) by (simp add: block_def split: if_splits)
  have blk: "block ?h1 b = Some (sl[i := None])"
    using b by (simp add: h1 block_def)
  have "fold (destroy (Some b)) is ?h1 =
           ?h1\<lparr>blocks := (blocks ?h1)[b := Some (fold (\<lambda>i s. s[i := None]) is (sl[i := None]))],
               trace := trace ?h1 @ map (Destroy (Some b)) is\<rparr>"
    using Cons.prems by (intro Cons.IH [OF blk]) (auto simp: nth_list_update)
  then show ?case by (simp add: h1)
qed

lemma destroy_loop_ok:
  assumes "block h b = Some sl" and "n \<le> length sl" and "\<forall>i. a \<le> i \<and> i < n \<longrightarrow> sl ! i \<noteq> None"
  shows "destroy_loop (Some b) a n h =
            h\<lparr>blocks := (blocks h)[b := Some (fold (\<lambda>i s. s[i := None]) [a..<n] sl)],
              trace := trace h @ map (Destroy (Some b)) [a..<n]\<rparr>"
  unfolding destroy_loop_def using assms by (intro destroy_loop_ok_gen) auto


lemma blocks_maybe_fault: "blocks (if c then fault e h else h) = blocks h"
  by (simp add: fault_def)

lemma trace_maybe_fault: "trace (if c then fault e h else h) = trace h"
  by (simp add: fault_def)

lemma MoveIterTo_loop_ok:
  assumes "block h bs = Some ss" and "block h bd = Some ds" and "bs \<noteq> bd" and "distinct is"
    and "\<forall>i\<in>set is. i < length ss \<and> i < length ds \<and> ss ! i = Some (val i) \<and> ds ! i = None"
  shows "(fst (MoveIterTo_loop E (Some bs) (Some bd) is h) \<longleftrightarrow>
           (\<exists>i\<in>set is. move_throws E i (val i))) \<and>
         ((\<forall>i\<in>set is. \<not> move_throws E i (val i)) \<longrightarrow>
           blocks (snd (MoveIterTo_loop E (Some bs) (Some bd) is h)) =
             (blocks h)[bd := Some (fold (\<lambda>i s. s[i := Some (val i)]) is ds),
                        bs := Some (fold (\<lambda>i s. s[i := Some (moved_from E (val i))]) is ss)] \<and>
           trace (snd (MoveIterTo_loop E (Some bs) (Some bd) is h)) =
             trace h @ map (Construct (Some bd)) is \<and>
           ((\<forall>i\<in>set is. i \<noteq> int_max) \<longrightarrow>
              faults (snd (MoveIterTo_loop E (Some bs) (Some bd) is h)) = faults h) \<and>
           faults (snd (MoveIterTo_loop E (Some bs) (Some bd) is h)) =
             faults h @ (if int_max \<in> set is then [IntOverflow] else []))"
  using assms
proof (induction "is" arbitrary: h ss ds)
  case Nil
  have "(blocks h)[bd := Some ds] = blocks h" "(blocks h)[bs := Some ss] = blocks h"
    using Nil by (simp_all add: block_def list_update_same_conv split: if_splits)
  then show ?case by simp
next
  case (Cons i "is")
  have pre: "block h bs = Some ss" "block h bd = Some ds" "bs \<noteq> bd" "distinct (i # is)"
    "\<forall>j\<in>set (i # is). j < length ss \<and> j < length ds \<and> ss ! j = Some (val j) \<and> ds ! j = None"
    using Cons.prems by auto
  have lens: "bs < length (blocks h)" "bd < length (blocks h)"
    using pre(1,2) by (simp_all add: block_def split: if_splits)
  have sl: "slot h (Some bs) i = Some (val i)"
    using pre by (simp add: slot_def)
  let ?hc = "construct (Some bd) i (val i) h"
  have hc: "?hc = h\<lparr>blocks := (blocks h)[bd := Some (ds[i := Some (val i)])],
                     trace := trace h @ [Construct (Some bd) i]\<rparr>"
    using pre by (intro construct_ok) auto
  have hc_bs: "block ?hc bs = Some ss"
    using pre lens by (simp add: hc block_def)
  let ?h1 = "leave_moved E (Some bs) i ?hc"
  have h1: "?h1 = ?hc\<lparr>blocks := (blocks ?hc)[bs := Some (ss[i := map_option (moved_from E) (ss ! i)])]\<rparr>"
    using pre by (intro leave_moved_ok [OF hc_bs]) auto
  define h2 where "h2 = (if i = int_max then fault IntOverflow ?h1 else ?h1)"
  let ?ss' = "ss[i := Some (moved_from E (val i))]"
  let ?ds' = "ds[i := Some (val i)]"
  have b1: "blocks ?h1 = (blocks h)[bd := Some ?ds', bs := Some ?ss']"
    using pre by (subst h1) (simp add: hc)
  have t1: "trace ?h1 = trace h @ [Construct (Some bd) i]"
    by (subst h1) (simp add: hc)
  have f1: "faults ?h1 = faults h"
    by (subst h1) (simp add: hc)
  have b2: "blocks h2 = (blocks h)[bd := Some ?ds', bs := Some ?ss']"
    unfolding h2_def using b1 by (simp only: blocks_maybe_fault)
  have t2: "trace h2 = trace h @ [Construct (Some bd) i]"
    unfolding h2_def using t1 by (simp only: trace_maybe_fault)
  have f2: "faults h2 = faults h" if "i \<noteq> int_max"
    using f1 that by (simp add: h2_def)
  have f2': "faults h2 = faults h @ (if i = int_max then [IntOverflow] else [])"
  proof (cases "i = int_max")
    case True
    have "faults (fault IntOverflow ?h1) = faults ?h1 @ [IntOverflow]" by (simp add: fault_def)
    then show ?thesis using True f1 by (simp add: h2_def)
  next
    case False
    then show ?thesis using f1 by (simp add: h2_def)
  qed
  have notin: "i \<notin> set is" using pre(4) by simp
  have blk: "block h2 bs = Some ?ss'" "block h2 bd = Some ?ds'"
    using pre lens by (simp_all add: block_def b2)
  have rest: "distinct is"
    "\<forall>j\<in>set is. j < length ?ss' \<and> j < length ?ds' \<and> ?ss' ! j = Some (val j) \<and> ?ds' ! j = None"
    using pre by (auto simp: nth_list_update)
  note IH = Cons.IH [OF blk pre(3) rest]
  show ?case
  proof (cases "move_throws E i (val i)")
    case True
    then show ?thesis by (simp add: sl)
  next
    case False
    then have step: "MoveIterTo_loop E (Some bs) (Some bd) (i # is) h =
        MoveIterTo_loop E (Some bs) (Some bd) is h2"
      by (simp add: sl Let_def h2_def)
    have upd: "((blocks h)[bd := Some ?ds', bs := Some ?ss'])[bd := X, bs := Y] =
        (blocks h)[bd := X, bs := Y]" for X Y
      using pre(3) by (simp add: list_update_swap [of bs bd])
    have fl: "faults (snd (MoveIterTo_loop E (Some bs) (Some bd) is h2)) =
        faults h @ (if int_max \<in> set (i # is) then [IntOverflow] else [])"
      if "\<forall>j\<in>set is. \<not> move_throws E j (val j)"
    proof -
      from IH that have "faults (snd (MoveIterTo_loop E (Some bs) (Some bd) is h2)) =
          faults h2 @ (if int_max \<in> set is then [IntOverflow] else [])"
        by blast
      then show ?thesis using f2' notin by auto
    qed
    show ?thesis
      unfolding step using IH False f2 fl by (simp add: b2 t2 upd)
  qed
qed

section \<open>Frame lemmas\<close>

lemma elems_nth: "i < size_m v \<Longrightarrow> elems h v ! i = index h v i"
  by (simp add: elems_def)

lemma length_elems [simp]: "length (elems h v) = size_m v"
  by (simp add: elems_def)

lemma length_blocks_construct [simp]: "length (blocks (construct p i x h)) = length (blocks h)"
  by (simp add: construct_def called_def fault_def split: option.splits)

lemma length_blocks_destroy [simp]: "length (blocks (destroy p i h)) = length (blocks h)"
  by (simp add: destroy_def called_def fault_def split: option.splits)

lemma length_blocks_deallocate [simp]: "length (blocks (deallocate p n h)) = length (blocks h)"
  by (simp add: deallocate_def called_def fault_def split: option.splits)

lemma block_construct_other: "p \<noteq> Some b \<Longrightarrow> block (construct p i x h) b = block h b"
  by (auto simp: construct_def called_def fault_def block_def split: option.splits)

lemma block_destroy_other: "p \<noteq> Some b \<Longrightarrow> block (destroy p i h) b = block h b"
  by (auto simp: destroy_def called_def fault_def block_def split: option.splits)

lemma block_deallocate_other: "p \<noteq> Some b \<Longrightarrow> block (deallocate p n h) b = block h b"
  by (auto simp: deallocate_def called_def fault_def block_def split: option.splits)

lemma block_construct_loop_other:
  "p \<noteq> Some b \<Longrightarrow> block (snd (snd (construct_loop mk p is c h))) b = block h b"
  by (induction "is" arbitrary: c h) (auto simp: block_construct_other split: option.splits)

lemma block_fold_destroy_other:
  "p \<noteq> Some b \<Longrightarrow> block (fold (destroy p) is h) b = block h b"
  by (induction "is" arbitrary: h) (auto simp: block_destroy_other)

lemma block_destroy_loop_other:
  "p \<noteq> Some b \<Longrightarrow> block (destroy_loop p a n h) b = block h b"
  by (simp add: destroy_loop_def block_fold_destroy_other)

lemma allocate_SomeD:
  "allocate E n h = Some (nb, h1) \<Longrightarrow>
   nb = length (blocks h) \<and> n \<le> max_size \<and>
   h1 = h\<lparr>blocks := blocks h @ [Some (replicate n None)], trace := trace h @ [Allocate nb n]\<rparr>"
  by (auto simp: allocate_def called_def split: if_splits)

lemma allocate_block:
  assumes "allocate E n h = Some (nb, h1)"
  shows "block h1 nb = Some (replicate n None)"
    and "b < length (blocks h) \<Longrightarrow> block h1 b = block h b"
    and "length (blocks h1) = Suc (length (blocks h))"
    and "trace h1 = trace h @ [Allocate nb n]"
    and "faults h1 = faults h"
  using allocate_SomeD [OF assms] by (simp_all add: block_def nth_append)

lemma index_block: "buffer_m v = Some b \<Longrightarrow> block h b = Some ss \<Longrightarrow> i < length ss \<Longrightarrow> index h v i = ss ! i"
  by (simp add: index_def slot_def)

lemma elems_frame:
  "(\<And>b. buffer_m v = Some b \<Longrightarrow> block h' b = block h b) \<Longrightarrow> elems h' v = elems h v"
  by (cases "buffer_m v") (simp_all add: elems_def index_def slot_def)

lemma elems_block:
  "buffer_m v = Some b \<Longrightarrow> block h b = Some ss \<Longrightarrow> size_m v \<le> length ss \<Longrightarrow>
   elems h v = take (size_m v) ss"
  by (auto simp: elems_def index_def slot_def list_eq_iff_nth_eq)

section \<open>The invariant, slot by slot\<close>

lemma invariant_SomeD:
  assumes "invariant h v" and "buffer_m v = Some b"
  shows "\<exists>ss. block h b = Some ss \<and> length ss = capacity_m v \<and> size_m v \<le> capacity_m v \<and>
           capacity_m v \<noteq> 0 \<and> (\<forall>i<size_m v. ss ! i \<noteq> None) \<and>
           (\<forall>i. size_m v \<le> i \<and> i < capacity_m v \<longrightarrow> ss ! i = None)"
proof -
  from assms obtain ss where ss: "block h b = Some ss" "length ss = capacity_m v"
      "size_m v \<le> capacity_m v" "capacity_m v \<noteq> 0"
      "list_all (\<lambda>s. s \<noteq> None) (take (size_m v) ss)"
      "list_all (\<lambda>s. s = None) (drop (size_m v) ss)"
    by (auto simp: invariant_def split: option.splits)
  have "\<forall>i<size_m v. ss ! i \<noteq> None"
    using ss(2,3,5) by (auto simp: list_all_length)
  moreover have "\<forall>i. size_m v \<le> i \<and> i < capacity_m v \<longrightarrow> ss ! i = None"
  proof (intro allI impI)
    fix i assume i: "size_m v \<le> i \<and> i < capacity_m v"
    then have "i - size_m v < length (drop (size_m v) ss)" using ss(2) by auto
    with ss(6) have "drop (size_m v) ss ! (i - size_m v) = None"
      by (simp only: list_all_length)
    then show "ss ! i = None" using i ss(2) by simp
  qed
  ultimately show ?thesis using ss by blast
qed

lemma invariant_NoneD:
  "invariant h v \<Longrightarrow> buffer_m v = None \<Longrightarrow> capacity_m v = 0 \<and> size_m v = 0"
  by (simp add: invariant_def)

lemma invariantI:
  assumes "buffer_m v = Some b" and "block h b = Some ss" and "length ss = capacity_m v"
    and "size_m v \<le> capacity_m v" and "capacity_m v \<noteq> 0"
    and "\<And>i. i < size_m v \<Longrightarrow> ss ! i \<noteq> None"
    and "\<And>i. size_m v \<le> i \<Longrightarrow> i < capacity_m v \<Longrightarrow> ss ! i = None"
  shows "invariant h v"
  using assms by (auto simp: invariant_def list_all_length)

section \<open>Migration into a new block\<close>

lemma fold_update_range:
  "n \<le> length s \<Longrightarrow>
   fold (\<lambda>i s. s[i := g i]) [0..<n] s = map g [0..<n] @ drop n s"
  by (rule nth_equalityI) (auto simp: fold_update_nth nth_append)

lemma migrate_ok:
  assumes inv: "invariant h v"
    and nb: "block h nb = Some ds" "buffer_m v \<noteq> Some nb" "size_m v \<le> length ds"
            "\<forall>i<size_m v. ds ! i = None"
    and ok: "\<not> fst (MoveIterTo E v (Some nb) h)"
  shows "block (release v (snd (MoveIterTo E v (Some nb) h))) nb =
           Some (elems h v @ drop (size_m v) ds)"
    and "\<forall>b. buffer_m v = Some b \<longrightarrow> block (release v (snd (MoveIterTo E v (Some nb) h))) b = None"
    and "\<forall>b. b \<noteq> nb \<and> buffer_m v \<noteq> Some b \<longrightarrow>
           block (release v (snd (MoveIterTo E v (Some nb) h))) b = block h b"
    and "length (blocks (release v (snd (MoveIterTo E v (Some nb) h)))) = length (blocks h)"
    and "trace (release v (snd (MoveIterTo E v (Some nb) h))) =
           trace h @ map (Construct (Some nb)) [0..<size_m v] @
           map (Destroy (buffer_m v)) [0..<size_m v] @
           [Deallocate (buffer_m v) (capacity_m v)]"
    and "size_m v \<le> int_max \<longrightarrow>
           faults (release v (snd (MoveIterTo E v (Some nb) h))) = faults h"
    and "faults (release v (snd (MoveIterTo E v (Some nb) h))) =
           faults h @ (if int_max < size_m v then [IntOverflow] else [])"
proof -
  let ?n = "size_m v"
  let ?h3 = "snd (MoveIterTo E v (Some nb) h)"
  let ?h' = "release v ?h3"
  have all: "block ?h' nb = Some (elems h v @ drop ?n ds) \<and>
     (\<forall>b. buffer_m v = Some b \<longrightarrow> block ?h' b = None) \<and>
     (\<forall>b. b \<noteq> nb \<and> buffer_m v \<noteq> Some b \<longrightarrow> block ?h' b = block h b) \<and>
     length (blocks ?h') = length (blocks h) \<and>
     trace ?h' = trace h @ map (Construct (Some nb)) [0..<?n] @
           map (Destroy (buffer_m v)) [0..<?n] @ [Deallocate (buffer_m v) (capacity_m v)] \<and>
     (?n \<le> int_max \<longrightarrow> faults ?h' = faults h) \<and>
     faults ?h' = faults h @ (if int_max < ?n then [IntOverflow] else [])"
  proof (cases "buffer_m v")
    case None
    with inv have z: "capacity_m v = 0" "size_m v = 0" by (simp_all add: invariant_NoneD)
    have h3: "?h3 = h" by (simp add: MoveIterTo_def z)
    have h': "?h' = called (Deallocate None 0) h"
      by (simp add: h3 release_def None z destroy_loop_def deallocate_def)
    show ?thesis
      using nb(1) by (simp add: h' None z elems_def) (simp add: called_def)
  next
    case (Some b)
    from invariant_SomeD [OF inv Some] obtain ss where ss: "block h b = Some ss"
        "length ss = capacity_m v" "?n \<le> capacity_m v"
        "\<forall>i<?n. ss ! i \<noteq> None" "\<forall>i. ?n \<le> i \<and> i < capacity_m v \<longrightarrow> ss ! i = None"
      by blast
    define val where "val i = the (ss ! i)" for i
    have bnb: "b \<noteq> nb" using nb(2) Some by auto
    have lens: "b < length (blocks h)" "nb < length (blocks h)"
      using ss(1) nb(1) by (simp_all add: block_def split: if_splits)
    have pre: "\<forall>i\<in>set [0..<?n]. i < length ss \<and> i < length ds \<and> ss ! i = Some (val i) \<and> ds ! i = None"
      using ss nb by (auto simp: val_def)
    note L = MoveIterTo_loop_ok [OF ss(1) nb(1) bnb distinct_upt pre, of E]
    have nothrow: "\<forall>i\<in>set [0..<?n]. \<not> move_throws E i (val i)"
      using ok L by (simp add: MoveIterTo_def Some)
    let ?ds' = "fold (\<lambda>i s. s[i := Some (val i)]) [0..<?n] ds"
    let ?ss' = "fold (\<lambda>i s. s[i := Some (moved_from E (val i))]) [0..<?n] ss"
    have b3: "blocks ?h3 = (blocks h)[nb := Some ?ds', b := Some ?ss']"
      and t3: "trace ?h3 = trace h @ map (Construct (Some nb)) [0..<?n]"
      using L nothrow by (simp_all add: MoveIterTo_def Some)
    have f3: "faults ?h3 = faults h" if "?n \<le> int_max"
    proof -
      have "\<forall>i\<in>set [0..<?n]. i \<noteq> int_max" using that by auto
      then show ?thesis using L nothrow by (simp add: MoveIterTo_def Some)
    qed
    have f3': "faults ?h3 = faults h @ (if int_max < ?n then [IntOverflow] else [])"
      using L nothrow by (simp add: MoveIterTo_def Some)
    have blk3: "block ?h3 b = Some ?ss'" "block ?h3 nb = Some ?ds'"
      using lens bnb by (simp_all add: block_def b3)
    have ss': "?n \<le> length ?ss'" "\<forall>i. 0 \<le> i \<and> i < ?n \<longrightarrow> ?ss' ! i \<noteq> None"
      using ss by (auto simp: fold_update_nth)
    let ?h4 = "destroy_loop (Some b) 0 ?n ?h3"
    have h4: "?h4 = ?h3\<lparr>blocks := (blocks ?h3)[b := Some (fold (\<lambda>i s. s[i := None]) [0..<?n] ?ss')],
                       trace := trace ?h3 @ map (Destroy (Some b)) [0..<?n]\<rparr>"
      by (rule destroy_loop_ok [OF blk3(1) ss'])
    have blk4: "block ?h4 b = Some (fold (\<lambda>i s. s[i := None]) [0..<?n] ?ss')"
      using lens by (simp add: h4 block_def b3)
    have h': "?h' = ?h4\<lparr>blocks := (blocks ?h4)[b := None],
                       trace := trace ?h4 @ [Deallocate (Some b) (capacity_m v)]\<rparr>"
      unfolding release_def Some using ss(2) by (intro deallocate_ok [OF blk4]) simp
    have bl': "blocks ?h' = (blocks h)[nb := Some ?ds', b := None]"
      by (simp add: h' h4 b3)
    have tr': "trace ?h' = trace h @ map (Construct (Some nb)) [0..<?n] @
           map (Destroy (Some b)) [0..<?n] @ [Deallocate (Some b) (capacity_m v)]"
      by (simp add: h' h4 t3)
    have ds': "?ds' = elems h v @ drop ?n ds"
    proof -
      have "?ds' = map (\<lambda>i. Some (val i)) [0..<?n] @ drop ?n ds"
        using nb(3) by (rule fold_update_range)
      moreover have "map (\<lambda>i. Some (val i)) [0..<?n] = elems h v"
        using ss Some by (auto simp: elems_def index_def slot_def val_def list_eq_iff_nth_eq)
      ultimately show ?thesis by simp
    qed
    have fl': "faults ?h' = faults ?h3"
      by (simp add: h' h4)
    show ?thesis
      using lens bnb f3 f3' by (simp add: block_def bl' tr' ds' Some fl')
  qed
  from all show "block ?h' nb = Some (elems h v @ drop ?n ds)" by blast
  from all show "\<forall>b. buffer_m v = Some b \<longrightarrow> block ?h' b = None" by blast
  from all show "\<forall>b. b \<noteq> nb \<and> buffer_m v \<noteq> Some b \<longrightarrow> block ?h' b = block h b" by blast
  from all show "length (blocks ?h') = length (blocks h)" by blast
  from all show "trace ?h' = trace h @ map (Construct (Some nb)) [0..<?n] @
           map (Destroy (buffer_m v)) [0..<?n] @ [Deallocate (buffer_m v) (capacity_m v)]" by blast
  from all show "?n \<le> int_max \<longrightarrow> faults ?h' = faults h" by blast
  from all show "faults ?h' = faults h @ (if int_max < ?n then [IntOverflow] else [])" by blast
qed

lemma MoveIterTo_returns:
  assumes inv: "invariant h v"
    and nb: "block h nb = Some ds" "buffer_m v \<noteq> Some nb" "size_m v \<le> length ds"
            "\<forall>i<size_m v. ds ! i = None"
    and mv: "\<forall>i x. \<not> move_throws E i x"
  shows "\<not> fst (MoveIterTo E v (Some nb) h)"
proof (cases "buffer_m v")
  case None
  with inv have "size_m v = 0" by (simp add: invariant_NoneD)
  then show ?thesis by (simp add: MoveIterTo_def)
next
  case (Some b)
  from invariant_SomeD [OF inv Some] obtain ss where ss: "block h b = Some ss"
      "length ss = capacity_m v" "size_m v \<le> capacity_m v"
      "\<forall>i<size_m v. ss ! i \<noteq> None"
    by blast
  define val where "val i = the (ss ! i)" for i
  have bnb: "b \<noteq> nb" using nb(2) Some by auto
  have pre: "\<forall>i\<in>set [0..<size_m v]. i < length ss \<and> i < length ds \<and> ss ! i = Some (val i) \<and> ds ! i = None"
    using ss nb by (auto simp: val_def)
  note L = MoveIterTo_loop_ok [OF ss(1) nb(1) bnb distinct_upt pre, of E]
  then show ?thesis using mv by (simp add: MoveIterTo_def Some)
qed

section \<open>Appending an element\<close>

lemma invariant_frame:
  "(\<And>b. buffer_m v = Some b \<Longrightarrow> block h' b = block h b) \<Longrightarrow> invariant h' v = invariant h v"
  by (cases "buffer_m v") (simp_all add: invariant_def)

lemma invariant_takedrop:
  assumes "invariant h v" and "buffer_m v = Some b"
  shows "\<exists>ss. block h b = Some ss \<and> length ss = capacity_m v \<and> size_m v \<le> capacity_m v \<and>
           capacity_m v \<noteq> 0 \<and> list_all (\<lambda>s. s \<noteq> None) (take (size_m v) ss) \<and>
           list_all (\<lambda>s. s = None) (drop (size_m v) ss) \<and> elems h v = take (size_m v) ss"
proof -
  from assms obtain ss where ss: "block h b = Some ss" "length ss = capacity_m v"
      "size_m v \<le> capacity_m v" "capacity_m v \<noteq> 0"
      "list_all (\<lambda>s. s \<noteq> None) (take (size_m v) ss)"
      "list_all (\<lambda>s. s = None) (drop (size_m v) ss)"
    by (auto simp: invariant_def split: option.splits)
  moreover have "elems h v = take (size_m v) ss"
    using assms(2) ss(1,2,3) by (intro elems_block) auto
  ultimately show ?thesis by blast
qed

lemma invariant_appendI:
  assumes "buffer_m v = Some b" and "block h b = Some (es @ rs)" and "length es = size_m v"
    and "capacity_m v = length es + length rs" and "capacity_m v \<noteq> 0"
    and "list_all (\<lambda>s. s \<noteq> None) es" and "list_all (\<lambda>s. s = None) rs"
  shows "invariant h v" and "elems h v = es"
proof -
  show "invariant h v" using assms by (simp add: invariant_def)
  have "elems h v = take (size_m v) (es @ rs)"
    using assms by (intro elems_block) auto
  then show "elems h v = es" using assms(3) by simp
qed

lemma list_all_elems:
  "invariant h v \<Longrightarrow> list_all (\<lambda>s. s \<noteq> None) (elems h v)"
proof (cases "buffer_m v")
  case None
  assume "invariant h v"
  with None show ?thesis by (simp add: invariant_NoneD elems_def)
next
  case (Some b)
  assume "invariant h v"
  from invariant_takedrop [OF this Some] show ?thesis by auto
qed

lemma list_all_drop_Suc:
  assumes "list_all P (drop n xs)"
  shows "list_all P (drop (Suc n) xs)"
proof -
  have "drop (Suc n) xs = tl (drop n xs)" by (simp add: drop_Suc tl_drop)
  then show ?thesis using assms by (cases "drop n xs") simp_all
qed

lemma size_t_small: "n < 2 ^ 64 \<Longrightarrow> size_t n = n"
  by (simp add: size_t_def)

lemma max_size_less: "n \<le> max_size \<Longrightarrow> n * 2 < 2 ^ 64 \<and> n + 1 < 2 ^ 64"
  by (simp add: max_size_def)

lemma EmplaceBack_None_raises: "raised (EmplaceBack E None v h) \<noteq> None"
  by (simp add: EmplaceBack_def raised_def split: option.splits prod.splits)

lemma EmplaceBack_ok:
  assumes val: "valid h v" and res: "EmplaceBack E (Some x) v h = (None, v', h')"
  shows "valid h' v' \<and> elems h' v' = elems h v @ [Some x] \<and> size_m v' = size_m v + 1 \<and>
         capacity_m v' = (if size_m v < capacity_m v then capacity_m v
                          else if capacity_m v = 0 then 1 else 2 * capacity_m v) \<and>
         (size_m v \<le> int_max \<longrightarrow> faults h' = faults h) \<and>
         faults h' = faults h @
           (if size_m v = capacity_m v \<and> int_max < size_m v then [IntOverflow] else [])"
proof -
  from val have inv: "invariant h v" and cap: "capacity_m v \<le> max_size"
    by (simp_all add: valid_def)
  have le: "size_m v \<le> capacity_m v" using inv by (simp add: invariant_def)
  have sz1: "size_t (Suc (size_m v)) = Suc (size_m v)"
    using le cap max_size_less [of "size_m v"] by (intro size_t_small) simp
  have cap2: "size_t (capacity_m v * 2) = capacity_m v * 2"
    using cap max_size_less [of "capacity_m v"] by (intro size_t_small) simp
  consider (room) "size_m v < capacity_m v" | (first) "capacity_m v = 0" "size_m v = 0"
    | (grow) "capacity_m v \<noteq> 0" "size_m v = capacity_m v"
    using le by fastforce
  then show ?thesis
  proof cases
    case room
    then obtain b where b: "buffer_m v = Some b"
      using inv by (cases "buffer_m v") (auto simp: invariant_def)
    from invariant_takedrop [OF inv b] obtain ss where ss: "block h b = Some ss"
        "length ss = capacity_m v" "list_all (\<lambda>s. s \<noteq> None) (take (size_m v) ss)"
        "list_all (\<lambda>s. s = None) (drop (size_m v) ss)" "elems h v = take (size_m v) ss"
      by blast
    have none: "ss ! size_m v = None"
      using invariant_SomeD [OF inv b] ss(1) room by auto
    from res room have v': "v' = v\<lparr>size_m := size_m v + 1\<rparr>"
      and h': "h' = construct (Some b) (size_m v) x h"
      by (simp_all add: EmplaceBack_def b sz1)
    have h'': "h' = h\<lparr>blocks := (blocks h)[b := Some (ss[size_m v := Some x])],
                      trace := trace h @ [Construct (Some b) (size_m v)]\<rparr>"
      unfolding h' using ss(1,2) room none by (intro construct_ok) auto
    have blk0: "block h' b = Some (ss[size_m v := Some x])"
      using ss(1) by (simp add: h'' block_def split: if_splits)
    have "ss[size_m v := Some x] = take (size_m v) ss @ Some x # drop (Suc (size_m v)) ss"
      using ss(2) room by (intro upd_conv_take_nth_drop) simp
    with blk0
    have blk: "block h' b = Some ((take (size_m v) ss @ [Some x]) @ drop (Suc (size_m v)) ss)"
      by simp
    have rest: "list_all (\<lambda>s. s = None) (drop (Suc (size_m v)) ss)"
      using ss(4) by (rule list_all_drop_Suc)
    have "invariant h' v'" "elems h' v' = take (size_m v) ss @ [Some x]"
      using ss(2,3) room rest b
      by (auto intro!: invariant_appendI [OF _ blk] simp: v')
    moreover have "faults h' = faults h" by (simp add: h'')
    ultimately show ?thesis using room cap ss(5) by (simp add: valid_def v')
  next
    case first
    then have bn: "buffer_m v = None"
      using inv by (cases "buffer_m v") (auto simp: invariant_def)
    from res first obtain nb h1 where al: "allocate E 1 h = Some (nb, h1)"
      and v': "v' = \<lparr>buffer_m = Some nb, size_m = 1, capacity_m = 1\<rparr>"
      and h': "h' = construct (Some nb) 0 x h1"
      by (auto simp: EmplaceBack_def size_t_def split: option.splits)
    have blk1: "block h1 nb = Some [None]" using allocate_block(1) [OF al] by simp
    have h'': "h' = h1\<lparr>blocks := (blocks h1)[nb := Some ([None][0 := Some x])],
                      trace := trace h1 @ [Construct (Some nb) 0]\<rparr>"
      unfolding h' by (intro construct_ok [OF blk1]) auto
    have blk: "block h' nb = Some ([Some x] @ [])"
      using blk1 by (simp add: h'' block_def split: if_splits)
    have "invariant h' v'" "elems h' v' = [Some x]"
      by (auto intro!: invariant_appendI [OF _ blk] simp: v')
    moreover have "elems h v = []" using first by (simp add: elems_def)
    moreover have "faults h' = faults h"
      using allocate_block(5) [OF al] by (simp add: h'')
    ultimately show ?thesis using first by (simp add: valid_def v' max_size_def)
  next
    case grow
    then obtain b where b: "buffer_m v = Some b"
      using inv by (cases "buffer_m v") (auto simp: invariant_def)
    let ?c = "capacity_m v"
    have ngt: "\<not> size_m v < capacity_m v" using grow by simp
    obtain nb h1 where al: "allocate E (?c * 2) h = Some (nb, h1)"
      using res grow ngt by (cases "allocate E (?c * 2) h") (auto simp: EmplaceBack_def cap2)
    obtain t h3 where mv: "MoveIterTo E v (Some nb) (construct (Some nb) ?c x h1) = (t, h3)"
      by (cases "MoveIterTo E v (Some nb) (construct (Some nb) ?c x h1)") blast
    have unf: "EmplaceBack E (Some x) v h =
        (if t then (Some ElementOperationFailure, v,
                    deallocate (Some nb) (?c * 2) (destroy (Some nb) (size_m v) h3))
         else (None, \<lparr>buffer_m = Some nb, size_m = Suc ?c, capacity_m = ?c * 2\<rparr>, release v h3))"
      using grow ngt al mv sz1 by (simp add: EmplaceBack_def cap2)
    from unf res have t: "\<not> t" by (cases t) simp_all
    from unf res t have v': "v' = \<lparr>buffer_m = Some nb, size_m = Suc ?c, capacity_m = ?c * 2\<rparr>"
      and h'0: "h' = release v h3" by simp_all
    have ok: "\<not> fst (MoveIterTo E v (Some nb) (construct (Some nb) ?c x h1))"
      using mv t by simp
    have h': "h' = release v (snd (MoveIterTo E v (Some nb) (construct (Some nb) ?c x h1)))"
      using mv h'0 by simp
    let ?h2 = "construct (Some nb) ?c x h1"
    let ?ds = "(replicate (?c * 2) None)[?c := Some x]"
    have blk1: "block h1 nb = Some (replicate (?c * 2) None)"
      using allocate_block(1) [OF al] by simp
    have nbl: "nb = length (blocks h)" using allocate_SomeD [OF al] by simp
    from invariant_SomeD [OF inv b] have bl: "b < length (blocks h)"
      by (auto simp: block_def split: if_splits)
    have bnb: "buffer_m v \<noteq> Some nb" using b bl nbl by simp
    have h2: "?h2 = h1\<lparr>blocks := (blocks h1)[nb := Some ?ds],
                       trace := trace h1 @ [Construct (Some nb) ?c]\<rparr>"
      using grow by (intro construct_ok [OF blk1]) auto
    have blk2: "block ?h2 nb = Some ?ds"
      using blk1 by (simp add: h2 block_def split: if_splits)
    have old2: "block ?h2 b = block h b"
      using b bnb allocate_block(2) [OF al bl] by (simp add: block_construct_other)
    have inv2: "invariant ?h2 v"
      using inv invariant_frame [of v ?h2 h] old2 b by simp
    have el2: "elems ?h2 v = elems h v"
      using elems_frame [of v ?h2 h] old2 b by simp
    have pre: "size_m v \<le> length ?ds" "\<forall>i<size_m v. ?ds ! i = None"
      using grow by auto
    note M = migrate_ok [OF inv2 blk2 bnb pre ok]
    have "?ds = take ?c (replicate (?c * 2) None) @ Some x # drop (Suc ?c) (replicate (?c * 2) None)"
      using grow by (intro upd_conv_take_nth_drop) simp
    then have "drop ?c ?ds = Some x # drop (Suc ?c) (replicate (?c * 2) None)"
      by simp
    moreover have "?c * 2 - Suc ?c = ?c - 1" by simp
    ultimately have "drop (size_m v) ?ds = Some x # replicate (?c - 1) None"
      using grow by simp
    then have blk: "block h' nb = Some ((elems h v @ [Some x]) @ replicate (?c - 1) None)"
      using M(1) by (simp add: h' el2)
    have "invariant h' v'" "elems h' v' = elems h v @ [Some x]"
      using grow list_all_elems [OF inv]
      by (auto intro!: invariant_appendI [OF _ blk] simp: v' list_all_iff)
    moreover have "?c * 2 \<le> max_size" using allocate_SomeD [OF al] by simp
    moreover have "size_m v \<le> int_max \<longrightarrow> faults h' = faults h"
      using M(6) allocate_block(5) [OF al] by (simp add: h' h2)
    moreover have "faults h' = faults h @ (if int_max < size_m v then [IntOverflow] else [])"
      using M(7) allocate_block(5) [OF al] by (simp add: h' h2)
    ultimately show ?thesis using grow by (simp add: valid_def v')
  qed
qed

section \<open>Comparison\<close>

lemma equal_loop_iff:
  "equal_loop h lhs rhs is \<longleftrightarrow> (\<forall>i\<in>set is. index h lhs i = index h rhs i)"
  by (induction "is") auto

lemma op_eq_elems: "op_eq h lhs rhs \<longleftrightarrow> elems h lhs = elems h rhs"
  by (auto simp: op_eq_def Size_def equal_loop_iff list_eq_iff_nth_eq elems_nth)

lemma lexicographical_compare_lexord:
  fixes xs ys :: "'a::linorder list"
  shows "lexicographical_compare (map Some xs) (map Some ys) \<longleftrightarrow>
         (xs, ys) \<in> lexord {(a, b). a < b}"
proof (induction xs arbitrary: ys)
  case Nil
  then show ?case by (cases ys) auto
next
  case (Cons x xs)
  then show ?case by (cases ys) auto
qed

lemma Vector_init_54321:
  "Vector_init int_env [5, 4, 3, 2, 1] empty_heap = (None, vec_54321, heap_54321)"
  by (simp add: Vector_init_def int_env_def empty_heap_def CopyIterRange_def copy_ctor_def
      heap_prims heap_54321_def vec_54321_def)

lemma Vector_init_54322:
  "Vector_init int_env [5, 4, 3, 2, 2] heap_54321 = (None, vec_54322, heap_54322)"
  by (simp add: Vector_init_def int_env_def CopyIterRange_def copy_ctor_def
      heap_prims heap_54321_def heap_54322_def vec_54322_def)

lemma elems_54321: "elems heap_54322 vec_54321 = map Some [5, 4, 3, 2, 1]"
  by (simp add: elems_def index_def slot_def block_def heap_54322_def vec_54321_def upt_conv_Cons)

lemma elems_54322: "elems heap_54322 vec_54322 = map Some [5, 4, 3, 2, 2]"
  by (simp add: elems_def index_def slot_def block_def heap_54322_def vec_54322_def upt_conv_Cons)

text \<open>
  C10. For two containers holding the values \<open>xs\<close> and \<open>ys\<close>, \<open>operator==\<close> is true
  exactly when the sizes are equal and the elements are pairwise equal, \<open>operator<\<close>
  is the lexicographic order of the element comparison, and \<open>!=\<close>, \<open>>\<close>, \<open><=\<close>,
  \<open>>=\<close> are derived from the two; \<open>Vector<int>{5,4,3,2,1} < Vector<int>{5,4,3,2,2}\<close>
  is true.
\<close>

theorem C10_comparison_operators:
  fixes h :: "('a::linorder) heap"
  assumes "elems h lhs = map Some xs" and "elems h rhs = map Some ys"
  shows "(op_eq h lhs rhs \<longleftrightarrow>
            length xs = length ys \<and> (\<forall>i<length xs. xs ! i = ys ! i)) \<and>
         (op_lt h lhs rhs \<longleftrightarrow> (xs, ys) \<in> lexord {(a, b). a < b}) \<and>
         (op_ne h lhs rhs \<longleftrightarrow> \<not> op_eq h lhs rhs) \<and>
         (op_gt h lhs rhs \<longleftrightarrow> op_lt h rhs lhs) \<and>
         (op_le h lhs rhs \<longleftrightarrow> \<not> op_lt h rhs lhs) \<and>
         (op_ge h lhs rhs \<longleftrightarrow> \<not> op_lt h lhs rhs) \<and>
         (let r1 = Vector_init int_env [5, 4, 3, 2, 1] empty_heap;
              r2 = Vector_init int_env [5, 4, 3, 2, 2] (heap_of r1)
          in op_lt (heap_of r2) (vec_of r1) (vec_of r2))"
proof -
  have "op_eq h lhs rhs \<longleftrightarrow> xs = ys"
    using assms by (simp add: op_eq_elems inj_map_eq_map)
  moreover have "xs = ys \<longleftrightarrow> length xs = length ys \<and> (\<forall>i<length xs. xs ! i = ys ! i)"
    by (auto simp: list_eq_iff_nth_eq)
  moreover have "op_lt h lhs rhs \<longleftrightarrow> (xs, ys) \<in> lexord {(a, b). a < b}"
    using assms by (simp add: op_lt_def lexicographical_compare_lexord)
  moreover have "let r1 = Vector_init int_env [5, 4, 3, 2, 1] empty_heap;
                     r2 = Vector_init int_env [5, 4, 3, 2, 2] (heap_of r1)
                 in op_lt (heap_of r2) (vec_of r1) (vec_of r2)"
    by (simp add: Vector_init_54321 Vector_init_54322 heap_of_def vec_of_def op_lt_def
        elems_54321 elems_54322)
  ultimately show ?thesis
    by (simp add: op_ne_def op_gt_def op_le_def op_ge_def)
qed

theorem C10_comparison_operators_witness:
  "elems heap_54322 vec_54321 = map Some [5, 4, 3, 2, 1] \<and>
   elems heap_54322 vec_54322 = map Some [5, 4, 3, 2, 2] \<and>
   op_lt heap_54322 vec_54321 vec_54322 \<and>
   \<not> op_ge heap_54322 vec_54321 vec_54322"
proof -
  note c = C10_comparison_operators [OF elems_54321 elems_54322]
  have lt: "op_lt heap_54322 vec_54321 vec_54322 \<longleftrightarrow>
              ([5, 4, 3, 2, 1], [5, 4, 3, 2, 2]) \<in> lexord {(a, b). a < (b::int)}"
    using c by blast
  have ge: "op_ge heap_54322 vec_54321 vec_54322 \<longleftrightarrow> \<not> op_lt heap_54322 vec_54321 vec_54322"
    using c by blast
  have "([5, 4, 3, 2, 1], [5, 4, 3, 2, 2]) \<in> lexord {(a, b). a < (b::int)}"
    by simp
  with lt ge show ?thesis
    using elems_54321 elems_54322 by blast
qed

section \<open>A container of more than \<open>INT_MAX\<close> elements\<close>

lemma invariant_big: "invariant heap_big vec_big"
  by (simp add: invariant_def vec_big_def heap_big_def block_def list_all_iff)

lemma Vector_size_ok:
  assumes "0 < n" and "n \<le> max_size"
  shows "Vector_size int_env n empty_heap =
     (None, \<lparr>buffer_m = Some 0, size_m = n, capacity_m = n\<rparr>,
      \<lparr>blocks = [Some (replicate n (Some 0))],
       trace = Allocate 0 n # map (Construct (Some 0)) [0..<n], faults = []\<rparr>)"
proof -
  let ?h1 = "\<lparr>blocks = [Some (replicate n None)], trace = [Allocate 0 n], faults = []\<rparr> :: int heap"
  have a: "allocate int_env n empty_heap = Some (0, ?h1)"
    using assms by (simp add: allocate_def int_env_def empty_heap_def called_def)
  have blk: "block ?h1 0 = Some (replicate n None)" by (simp add: block_def)
  have c: "construct_loop (default_ctor int_env) (Some 0) [0..<n] 0 ?h1 =
     (False, 0 + length [0..<n],
      ?h1\<lparr>blocks := (blocks ?h1)[0 := Some (fold (\<lambda>i s. s[i := default_ctor int_env i]) [0..<n]
                                               (replicate n None))],
          trace := trace ?h1 @ map (Construct (Some 0)) [0..<n]\<rparr>)"
    by (intro construct_loop_ok [OF blk]) (auto simp: default_ctor_def int_env_def)
  have f: "fold (\<lambda>i s. s[i := default_ctor int_env i]) [0..<n] (replicate n None) =
           replicate n (Some 0)"
    by (rule nth_equalityI) (auto simp: fold_update_nth default_ctor_def int_env_def)
  show ?thesis
    using assms(1) by (simp add: Vector_size_def a c f)
qed

lemma Vector_size_big: "Vector_size int_env (2 ^ 31) empty_heap = (None, vec_big, heap_big)"
  unfolding vec_big_def heap_big_def
  by (rule Vector_size_ok) (simp_all add: max_size_def)


section \<open>Failing runs\<close>

lemma replicate_numeral: "replicate (numeral k) x = x # replicate (pred_numeral k) x"
  by (simp add: numeral_eq_Suc)

lemmas eval_lists = replicate_numeral upt_conv_Cons

lemma Vector_init_12: "Vector_init fragile_env [1, 2] empty_heap = (None, vec_12, heap_12)"
  by (simp add: Vector_init_def fragile_env_def empty_heap_def CopyIterRange_def copy_ctor_def
      heap_prims heap_12_def vec_12_def eval_lists)

lemma Reserve_12:
  "Reserve fragile_env 4 vec_12 heap_12 =
     (Some ElementOperationFailure, vec_12, heap_12_reserve_failed)"
  by (simp add: Reserve_def MoveIterTo_def fragile_env_def heap_prims heap_12_def vec_12_def
      heap_12_reserve_failed_def eval_lists)

lemma Vector_dtor_12:
  "Vector_dtor vec_12 heap_12_reserve_failed =
     \<lparr>blocks = [None, Some [Some 1, None, None, None]],
      trace = [Allocate 0 2, Construct (Some 0) 0, Construct (Some 0) 1,
               Allocate 1 4, Construct (Some 1) 0,
               Destroy (Some 0) 0, Destroy (Some 0) 1, Deallocate (Some 0) 2],
      faults = []\<rparr>"
  by (simp add: Vector_dtor_def release_def destroy_loop_def heap_prims vec_12_def
      heap_12_reserve_failed_def eval_lists)

lemma Resize_12:
  "Resize fragile_env 3 vec_12 heap_12 =
     (Some ElementOperationFailure, vec_12,
      \<lparr>blocks = [Some [Some 1, Some 2], None],
       trace = [Allocate 0 2, Construct (Some 0) 0, Construct (Some 0) 1,
                Allocate 1 6, Deallocate (Some 1) 2],
       faults = [Deallocate (Some 1) 2]\<rparr>)"
  by (simp add: Resize_def Resize_with_def default_ctor_def fragile_env_def heap_prims
      heap_12_def vec_12_def destroy_loop_def eval_lists)

lemma EmplaceBack_default_throws:
  "EmplaceBack int_env None Vector_default empty_heap =
     (Some ElementOperationFailure, Vector_default,
      \<lparr>blocks = [None], trace = [Allocate 0 1, Destroy (Some 0) 0, Deallocate (Some 0) 1],
       faults = [Destroy (Some 0) 0]\<rparr>)"
  by (simp add: EmplaceBack_def Vector_default_def empty_heap_def int_env_def heap_prims)

lemma EmplaceBack_12_throws:
  "EmplaceBack fragile_env None vec_12 heap_12 =
     (Some ElementOperationFailure, vec_12,
      \<lparr>blocks = [Some [Some 1, Some 2], None],
       trace = [Allocate 0 2, Construct (Some 0) 0, Construct (Some 0) 1,
                Allocate 1 4, Destroy (Some 1) 2, Deallocate (Some 1) 4],
       faults = [Destroy (Some 1) 2]\<rparr>)"
  by (simp add: EmplaceBack_def fragile_env_def heap_prims heap_12_def vec_12_def eval_lists)

lemma Vector_size_3: "Vector_size int_env 3 empty_heap = (None, vec_000, heap_000)"
  by (simp add: Vector_size_def int_env_def empty_heap_def default_ctor_def
      heap_prims heap_000_def vec_000_def eval_lists)

lemma Clear_000: "Clear vec_000 heap_000 = (vec_cleared, heap_cleared)"
  by (simp add: Clear_def destroy_loop_def heap_prims heap_000_def vec_000_def vec_cleared_def
      heap_cleared_def eval_lists)

lemma Vector_copy_cleared:
  "Vector_copy int_env vec_cleared heap_cleared = (None, vec_copied, heap_cleared)"
  by (simp add: Vector_copy_def vec_cleared_def vec_copied_def)

lemma invariant_cleared: "invariant heap_cleared vec_cleared"
  by (simp add: invariant_def vec_cleared_def heap_cleared_def block_def)

lemma PushBack_copied:
  "PushBack int_env 7 vec_copied heap_cleared =
     (None, \<lparr>buffer_m = None, size_m = 1, capacity_m = 3\<rparr>,
      heap_cleared\<lparr>trace := trace heap_cleared @ [Construct None 0],
                   faults := [Construct None 0]\<rparr>)"
  by (simp add: PushBack_def EmplaceBack_def copy_ctor_def int_env_def vec_copied_def
      heap_prims heap_cleared_def)

lemma EmplaceBack_cleared_throws:
  "EmplaceBack int_env None vec_cleared heap_cleared =
     (Some ElementOperationFailure, vec_cleared,
      heap_cleared\<lparr>trace := trace heap_cleared @ [Destroy (Some 0) 0],
                   faults := [Destroy (Some 0) 0]\<rparr>)"
  by (simp add: EmplaceBack_def int_env_def vec_cleared_def heap_prims heap_cleared_def)

lemma EmplaceBack_12_move_throws:
  "EmplaceBack fragile_env (Some 3) vec_12 heap_12 =
     (Some ElementOperationFailure, vec_12,
      \<lparr>blocks = [Some [Some 0, Some 2], None],
       trace = [Allocate 0 2, Construct (Some 0) 0, Construct (Some 0) 1,
                Allocate 1 4, Construct (Some 1) 2, Construct (Some 1) 0,
                Destroy (Some 1) 2, Deallocate (Some 1) 4],
       faults = []\<rparr>)"
  by (simp add: EmplaceBack_def MoveIterTo_def fragile_env_def heap_prims heap_12_def vec_12_def
      eval_lists)

text \<open>
  C1 (fails on the code). \<open>v = {1, 2}\<close>, and \<open>v.Reserve(4)\<close> where the move
  construction of the second element throws: \<open>MoveIterTo\<close> rethrows without destroying
  the element it has built in the new block, and \<open>Reserve\<close> restores its fields
  without releasing the new block. Afterwards the new block is still allocated and
  still holds the first element; the old block holds a moved-from first element.
  On the growth path of \<open>EmplaceBack(3)\<close> the same migration failure releases the new
  block with the migrated element still in it, never destroyed.
\<close>

theorem C1_migration_failure_not_undone:
  "Vector_init fragile_env [1, 2] empty_heap = (None, vec_12, heap_12) \<and>
   Reserve fragile_env 4 vec_12 heap_12 =
     (Some ElementOperationFailure, vec_12, heap_12_reserve_failed) \<and>
   block heap_12_reserve_failed 1 = Some [Some 1, None, None, None] \<and>
   Destroy (Some 1) 0 \<notin> set (trace heap_12_reserve_failed) \<and>
   elems heap_12 vec_12 = [Some 1, Some 2] \<and>
   elems heap_12_reserve_failed vec_12 = [Some 0, Some 2] \<and>
   EmplaceBack fragile_env (Some 3) vec_12 heap_12 =
     (Some ElementOperationFailure, vec_12,
      \<lparr>blocks = [Some [Some 0, Some 2], None],
       trace = [Allocate 0 2, Construct (Some 0) 0, Construct (Some 0) 1,
                Allocate 1 4, Construct (Some 1) 2, Construct (Some 1) 0,
                Destroy (Some 1) 2, Deallocate (Some 1) 4],
       faults = []\<rparr>)"
  by (simp add: Vector_init_12 Reserve_12 EmplaceBack_12_move_throws)
     (simp add: heap_12_reserve_failed_def heap_12_def vec_12_def block_def elems_def index_def
        slot_def eval_lists)

text \<open>
  C2 (fails on the code). When the constructor of the new element throws, every
  handler of \<open>EmplaceBack\<close> calls \<open>destroy\<close> on the slot whose construction has just
  failed: on an empty container (slot 0 of the fresh one-slot block), on the
  growth path of \<open>{1, 2}\<close> (slot 2 of the fresh block), and with spare capacity on
  the cleared three-slot container (slot 0 of its buffer). The fields of the
  container are unchanged and the fresh block is released.
\<close>

theorem C2_EmplaceBack_destroys_unconstructed_slot:
  "EmplaceBack int_env None Vector_default empty_heap =
     (Some ElementOperationFailure, Vector_default,
      \<lparr>blocks = [None], trace = [Allocate 0 1, Destroy (Some 0) 0, Deallocate (Some 0) 1],
       faults = [Destroy (Some 0) 0]\<rparr>) \<and>
   EmplaceBack fragile_env None vec_12 heap_12 =
     (Some ElementOperationFailure, vec_12,
      \<lparr>blocks = [Some [Some 1, Some 2], None],
       trace = [Allocate 0 2, Construct (Some 0) 0, Construct (Some 0) 1,
                Allocate 1 4, Destroy (Some 1) 2, Deallocate (Some 1) 4],
       faults = [Destroy (Some 1) 2]\<rparr>) \<and>
   EmplaceBack int_env None vec_cleared heap_cleared =
     (Some ElementOperationFailure, vec_cleared,
      heap_cleared\<lparr>trace := trace heap_cleared @ [Destroy (Some 0) 0],
                   faults := [Destroy (Some 0) 0]\<rparr>)"
  by (simp only: EmplaceBack_default_throws EmplaceBack_12_throws EmplaceBack_cleared_throws)

text \<open>
  C6 (fails on the code). \<open>v = {1, 2}\<close>, \<open>v.Resize(3)\<close> where the default
  constructor throws: the block allocated with 6 slots is released with the count 2,
  the old capacity. And after the failed \<open>Reserve(4)\<close> of C1 the new block is never
  released: it is still allocated once the container has been destroyed.
\<close>

theorem C6_block_released_with_wrong_count_or_leaked:
  "Resize fragile_env 3 vec_12 heap_12 =
     (Some ElementOperationFailure, vec_12,
      \<lparr>blocks = [Some [Some 1, Some 2], None],
       trace = [Allocate 0 2, Construct (Some 0) 0, Construct (Some 0) 1,
                Allocate 1 6, Deallocate (Some 1) 2],
       faults = [Deallocate (Some 1) 2]\<rparr>) \<and>
   Reserve fragile_env 4 vec_12 heap_12 =
     (Some ElementOperationFailure, vec_12, heap_12_reserve_failed) \<and>
   block (Vector_dtor vec_12 heap_12_reserve_failed) 1 = Some [Some 1, None, None, None] \<and>
   trace (Vector_dtor vec_12 heap_12_reserve_failed) =
     [Allocate 0 2, Construct (Some 0) 0, Construct (Some 0) 1, Allocate 1 4,
      Construct (Some 1) 0, Destroy (Some 0) 0, Destroy (Some 0) 1, Deallocate (Some 0) 2]"
  by (simp add: Resize_12 Reserve_12 Vector_dtor_12 block_def)

text \<open>
  C7 (fails on the code). \<open>Vector<int> v(3); v.Clear(); Vector<int> w(v);\<close>: the copy
  constructor copies \<open>capacity_ = 3\<close> but allocates only when \<open>size_\<close> is not 0, so
  \<open>w\<close> has a null buffer with capacity 3. A \<open>PushBack\<close> on \<open>w\<close> then constructs at
  the null pointer and leaves \<open>size_ = 1\<close> with no storage.
\<close>

theorem C7_copy_of_cleared_breaks_invariant:
  "Vector_size int_env 3 empty_heap = (None, vec_000, heap_000) \<and>
   Clear vec_000 heap_000 = (vec_cleared, heap_cleared) \<and>
   invariant heap_cleared vec_cleared \<and>
   Vector_copy int_env vec_cleared heap_cleared = (None, vec_copied, heap_cleared) \<and>
   buffer_m vec_copied = None \<and> capacity_m vec_copied = 3 \<and>
   \<not> invariant heap_cleared vec_copied \<and>
   PushBack int_env 7 vec_copied heap_cleared =
     (None, \<lparr>buffer_m = None, size_m = 1, capacity_m = 3\<rparr>,
      heap_cleared\<lparr>trace := trace heap_cleared @ [Construct None 0],
                   faults := [Construct None 0]\<rparr>)"
  by (simp add: Vector_size_3 Clear_000 invariant_cleared Vector_copy_cleared PushBack_copied)
     (simp add: invariant_def vec_copied_def)

section \<open>Sequences of PushBack\<close>

lemma valid_Vector_default: "valid h Vector_default"
  by (simp add: valid_def invariant_def Vector_default_def)

lemma grown_Vector_default: "grown Vector_default"
  by (simp add: grown_def Vector_default_def)

lemma EmplaceBack_returns:
  assumes val: "valid h v" and fit: "capacity_m v * 2 \<le> max_size"
    and al: "\<forall>n. \<not> alloc_fails E n" and mv: "\<forall>i x. \<not> move_throws E i x"
  shows "raised (EmplaceBack E (Some x) v h) = None"
proof -
  from val have inv: "invariant h v" by (simp add: valid_def)
  have le: "size_m v \<le> capacity_m v" using inv by (simp add: invariant_def)
  have cap2: "size_t (capacity_m v * 2) = capacity_m v * 2"
    using fit by (simp add: size_t_small max_size_def)
  consider (room) "size_m v < capacity_m v" | (first) "capacity_m v = 0" "size_m v = 0"
    | (grow) "capacity_m v \<noteq> 0" "size_m v = capacity_m v"
    using le by fastforce
  then show ?thesis
  proof cases
    case room
    then show ?thesis by (simp add: EmplaceBack_def raised_def)
  next
    case first
    obtain nb h1 where "allocate E 1 h = Some (nb, h1)"
      using al by (simp add: allocate_def max_size_def)
    then show ?thesis using first by (simp add: EmplaceBack_def raised_def)
  next
    case grow
    then obtain b where b: "buffer_m v = Some b"
      using inv by (cases "buffer_m v") (auto simp: invariant_def)
    let ?c = "capacity_m v"
    have ngt: "\<not> size_m v < capacity_m v" using grow by simp
    obtain nb h1 where a: "allocate E (?c * 2) h = Some (nb, h1)"
      using al fit by (simp add: allocate_def)
    let ?h2 = "construct (Some nb) ?c x h1"
    let ?ds = "(replicate (?c * 2) None)[?c := Some x]"
    obtain t h3 where m: "MoveIterTo E v (Some nb) ?h2 = (t, h3)"
      by (cases "MoveIterTo E v (Some nb) ?h2") blast
    have blk1: "block h1 nb = Some (replicate (?c * 2) None)"
      using allocate_block(1) [OF a] by simp
    have nbl: "nb = length (blocks h)" using allocate_SomeD [OF a] by simp
    from invariant_SomeD [OF inv b] have bl: "b < length (blocks h)"
      by (auto simp: block_def split: if_splits)
    have bnb: "buffer_m v \<noteq> Some nb" using b bl nbl by simp
    have h2: "?h2 = h1\<lparr>blocks := (blocks h1)[nb := Some ?ds],
                       trace := trace h1 @ [Construct (Some nb) ?c]\<rparr>"
      using grow by (intro construct_ok [OF blk1]) auto
    have blk2: "block ?h2 nb = Some ?ds"
      using blk1 by (simp add: h2 block_def split: if_splits)
    have old2: "block ?h2 b = block h b"
      using b bnb allocate_block(2) [OF a bl] by (simp add: block_construct_other)
    have inv2: "invariant ?h2 v"
      using inv invariant_frame [of v ?h2 h] old2 b by simp
    have pre: "size_m v \<le> length ?ds" "\<forall>i<size_m v. ?ds ! i = None"
      using grow by auto
    have "\<not> fst (MoveIterTo E v (Some nb) ?h2)"
      by (rule MoveIterTo_returns [OF inv2 blk2 bnb pre mv])
    then have "\<not> t" using m by simp
    then show ?thesis
      using grow ngt a m by (simp add: EmplaceBack_def cap2 raised_def)
  qed
qed

lemma PushBack_call_EmplaceBack:
  assumes "caller_object a"
  shows "\<exists>x. argument_value a = Some x \<and>
           (PushBack_call E a v h = EmplaceBack E (Some x) v h \<or>
            PushBack_call E a v h = EmplaceBack E None v h \<and>
              (copy_throws E (size_m v) x \<or> move_throws E (size_m v) x))"
  using assms by (cases a) (auto simp: PushBack_def PushBack_rv_def copy_ctor_def move_ctor_def)

lemma PushBack_call_ok:
  assumes "valid h v" and "caller_object a" and "PushBack_call E a v h = (None, v', h')"
  shows "valid h' v' \<and> elems h' v' = elems h v @ [argument_value a] \<and>
         size_m v' = size_m v + 1 \<and>
         capacity_m v' = (if size_m v < capacity_m v then capacity_m v
                          else if capacity_m v = 0 then 1 else 2 * capacity_m v) \<and>
         (size_m v \<le> int_max \<longrightarrow> faults h' = faults h) \<and>
         faults h' = faults h @
           (if size_m v = capacity_m v \<and> int_max < size_m v then [IntOverflow] else [])"
proof -
  from PushBack_call_EmplaceBack [OF assms(2), of E v h] obtain x where
    x: "argument_value a = Some x"
    and e: "PushBack_call E a v h = EmplaceBack E (Some x) v h \<or>
            PushBack_call E a v h = EmplaceBack E None v h"
    by blast
  have "PushBack_call E a v h \<noteq> EmplaceBack E None v h"
  proof
    assume "PushBack_call E a v h = EmplaceBack E None v h"
    then have "raised (PushBack_call E a v h) \<noteq> None"
      by (simp add: EmplaceBack_None_raises)
    with assms(3) show False by (simp add: raised_def)
  qed
  with e have "EmplaceBack E (Some x) v h = (None, v', h')"
    using assms(3) by simp
  from EmplaceBack_ok [OF assms(1) this] show ?thesis by (simp add: x)
qed

lemma PushBack_call_returns:
  assumes "valid h v" and "caller_object a" and "capacity_m v * 2 \<le> max_size"
    and "\<forall>n. \<not> alloc_fails E n" and "\<forall>i x. \<not> copy_throws E i x"
    and "\<forall>i x. \<not> move_throws E i x"
  shows "raised (PushBack_call E a v h) = None"
proof -
  from PushBack_call_EmplaceBack [OF assms(2), of E v h] assms(5,6) obtain x where
    "PushBack_call E a v h = EmplaceBack E (Some x) v h"
    by blast
  then show ?thesis
    using EmplaceBack_returns [OF assms(1,3,4,6)] by simp
qed

lemma grown_step:
  assumes "grown v" and "size_m v' = size_m v + 1"
    and "capacity_m v' = (if size_m v < capacity_m v then capacity_m v
                          else if capacity_m v = 0 then 1 else 2 * capacity_m v)"
  shows "grown v'"
proof -
  from assms(1) have le: "size_m v \<le> capacity_m v"
    and c: "capacity_m v = 0 \<or>
            (capacity_m v < 2 * size_m v \<and> (\<exists>k\<le>capacity_m v. capacity_m v = 2 ^ k))"
    by (simp_all add: grown_def)
  consider (room) "size_m v < capacity_m v" | (first) "capacity_m v = 0" "size_m v = 0"
    | (grow) "capacity_m v \<noteq> 0" "size_m v = capacity_m v"
    using le by fastforce
  then show ?thesis
  proof cases
    case room
    with c assms(2,3) show ?thesis by (auto simp: grown_def)
  next
    case first
    have "(0::nat) \<le> 1 \<and> (1::nat) = 2 ^ 0" by simp
    then have "\<exists>k\<le>1. (1::nat) = 2 ^ k" by blast
    with first assms(2,3) show ?thesis by (simp add: grown_def)
  next
    case grow
    with c obtain k where k: "capacity_m v = 2 ^ k" by auto
    have "2 * capacity_m v = 2 ^ Suc k" using k by simp
    moreover have "Suc k \<le> 2 ^ Suc k" using less_exp [of "Suc k"] by simp
    ultimately have "\<exists>j\<le>2 * capacity_m v. 2 * capacity_m v = 2 ^ j" by auto
    with grow assms(2,3) show ?thesis by (simp add: grown_def)
  qed
qed

lemma grown_capacity:
  assumes "grown v" and "size_m v \<noteq> 0"
  shows "capacity_m v < 2 * size_m v"
  using assms by (auto simp: grown_def)

lemma PushBack_calls_ok:
  "valid h v \<Longrightarrow> grown v \<Longrightarrow> \<forall>a\<in>set as. caller_object a \<Longrightarrow>
   PushBack_calls E as v h = (None, v', h') \<Longrightarrow>
   valid h' v' \<and> grown v' \<and> size_m v' = size_m v + length as \<and>
   elems h' v' = elems h v @ map argument_value as \<and>
   (size_m v + length as \<le> Suc int_max \<longrightarrow> faults h' = faults h)"
proof (induction as arbitrary: v h)
  case Nil
  then show ?case by simp
next
  case (Cons a as)
  obtain r v1 h1 where p: "PushBack_call E a v h = (r, v1, h1)"
    by (cases "PushBack_call E a v h") auto
  show ?case
  proof (cases r)
    case None
    have ca: "caller_object a" using Cons.prems(3) by simp
    from PushBack_call_ok [OF Cons.prems(1) ca p [unfolded None]]
    have s: "valid h1 v1" "elems h1 v1 = elems h v @ [argument_value a]"
      "size_m v1 = size_m v + 1"
      "capacity_m v1 = (if size_m v < capacity_m v then capacity_m v
                          else if capacity_m v = 0 then 1 else 2 * capacity_m v)"
      "size_m v \<le> int_max \<longrightarrow> faults h1 = faults h"
      by simp_all
    have g: "grown v1" by (rule grown_step [OF Cons.prems(2) s(3,4)])
    have rest: "\<forall>a\<in>set as. caller_object a" using Cons.prems(3) by simp
    have "PushBack_calls E as v1 h1 = (None, v', h')"
      using Cons.prems(4) p None by simp
    from Cons.IH [OF s(1) g rest this] show ?thesis using s(2,3,5) by simp
  next
    case (Some e)
    then show ?thesis using Cons.prems(4) p by simp
  qed
qed

lemma PushBack_calls_returns:
  "valid h v \<Longrightarrow> grown v \<Longrightarrow> \<forall>a\<in>set as. caller_object a \<Longrightarrow>
   size_m v + length as \<le> 2 ^ 61 \<Longrightarrow>
   \<forall>n. \<not> alloc_fails E n \<Longrightarrow> \<forall>i x. \<not> copy_throws E i x \<Longrightarrow> \<forall>i x. \<not> move_throws E i x \<Longrightarrow>
   raised (PushBack_calls E as v h) = None"
proof (induction as arbitrary: v h)
  case Nil
  then show ?case by (simp add: raised_def)
next
  case (Cons a as)
  have ca: "caller_object a" and rest: "\<forall>a\<in>set as. caller_object a"
    using Cons.prems(3) by simp_all
  have fit: "capacity_m v * 2 \<le> max_size"
  proof (cases "size_m v = 0")
    case True
    with Cons.prems(2) have "capacity_m v = 0" by (auto simp: grown_def)
    then show ?thesis by simp
  next
    case False
    from grown_capacity [OF Cons.prems(2) False] have "capacity_m v < 2 * size_m v" .
    moreover have "size_m v \<le> 2 ^ 61" using Cons.prems(4) by simp
    ultimately show ?thesis by (simp add: max_size_def)
  qed
  have "raised (PushBack_call E a v h) = None"
    by (rule PushBack_call_returns [OF Cons.prems(1) ca fit Cons.prems(5,6,7)])
  then obtain v1 h1 where p: "PushBack_call E a v h = (None, v1, h1)"
    by (cases "PushBack_call E a v h") (auto simp: raised_def)
  from PushBack_call_ok [OF Cons.prems(1) ca p]
  have s: "valid h1 v1" "size_m v1 = size_m v + 1"
      "capacity_m v1 = (if size_m v < capacity_m v then capacity_m v
                          else if capacity_m v = 0 then 1 else 2 * capacity_m v)"
    by simp_all
  have g: "grown v1" by (rule grown_step [OF Cons.prems(2) s(2,3)])
  have len: "size_m v1 + length as \<le> 2 ^ 61" using Cons.prems(4) s(2) by simp
  from Cons.IH [OF s(1) g rest len Cons.prems(5,6,7)] show ?case
    by (simp add: p)
qed

lemma PushBack_calls_append:
  "PushBack_calls E (as @ bs) v h =
     (case PushBack_calls E as v h of
        (None, v', h') \<Rightarrow> PushBack_calls E bs v' h'
      | (Some e, v', h') \<Rightarrow> (Some e, v', h'))"
  by (induction as arbitrary: v h) (auto split: prod.splits option.splits)

lemma pow2_between:
  assumes "(2::nat) ^ m \<le> 2 ^ k" and "(2::nat) ^ k < 2 * 2 ^ m"
  shows "k = m"
proof -
  from assms(1) have "m \<le> k" by simp
  moreover from assms(2) have "(2::nat) ^ k < 2 ^ Suc m" by simp
  then have "k < Suc m" by (simp only: power_strict_increasing_iff one_less_numeral_iff semiring_norm)
  ultimately show ?thesis by simp
qed

lemma PushBack_calls_overflow:
  assumes n: "n = 2 ^ m" and big: "int_max < n" and small: "n \<le> Suc int_max"
  shows "faults (heap_of (PushBack_calls int_env (replicate (n + 1) (Lvalue 0))
                            Vector_default empty_heap)) = [IntOverflow]"
proof -
  let ?as = "replicate n (Lvalue (0::int))"
  let ?h = "empty_heap :: int heap"
  have env: "\<forall>n. \<not> alloc_fails int_env n" "\<forall>i x. \<not> copy_throws int_env i x"
    "\<forall>i x. \<not> move_throws int_env i x"
    by (simp_all add: int_env_def)
  have all: "\<forall>a\<in>set ?as. caller_object a" by simp
  have n61: "n \<le> 2 ^ 61" using small by (simp add: int_max_def)
  have len: "size_m Vector_default + length ?as \<le> 2 ^ 61"
    using n61 by (simp add: Vector_default_def)
  have "raised (PushBack_calls int_env ?as Vector_default ?h) = None"
    by (rule PushBack_calls_returns [OF valid_Vector_default grown_Vector_default all len env])
  then obtain v1 h1 where r: "PushBack_calls int_env ?as Vector_default ?h = (None, v1, h1)"
    by (cases "PushBack_calls int_env ?as Vector_default ?h") (auto simp: raised_def)
  from PushBack_calls_ok [OF valid_Vector_default grown_Vector_default all r] small
  have s: "valid h1 v1" "grown v1" "size_m v1 = n" "faults h1 = []"
    by (simp_all add: Vector_default_def empty_heap_def)
  have pos: "size_m v1 \<noteq> 0" using s(3) n by simp
  from s(2) pos obtain k where k: "capacity_m v1 = 2 ^ k"
    and le: "size_m v1 \<le> capacity_m v1" and lt: "capacity_m v1 < 2 * size_m v1"
    by (auto simp: grown_def)
  have "k = m" using le lt by (intro pow2_between) (simp_all add: k s(3) n)
  then have full: "size_m v1 = capacity_m v1" by (simp add: k s(3) n)
  have fit: "capacity_m v1 * 2 \<le> max_size"
    using full s(3) n61 by (simp add: max_size_def)
  have "raised (PushBack_call int_env (Lvalue 0) v1 h1) = None"
    by (rule PushBack_call_returns [OF s(1) _ fit env]) simp
  then obtain v2 h2 where p: "PushBack_call int_env (Lvalue 0) v1 h1 = (None, v2, h2)"
    by (cases "PushBack_call int_env (Lvalue 0) v1 h1") (auto simp: raised_def)
  from PushBack_call_ok [OF s(1) _ p]
  have "faults h2 = faults h1 @
           (if size_m v1 = capacity_m v1 \<and> int_max < size_m v1 then [IntOverflow] else [])"
    by simp
  then have f2: "faults h2 = [IntOverflow]" using full big s(3,4) by simp
  have sp: "replicate (n + 1) (Lvalue (0::int)) = ?as @ [Lvalue 0]"
    by (simp add: replicate_append_same)
  have "PushBack_calls int_env (?as @ [Lvalue 0]) Vector_default ?h = (None, v2, h2)"
    unfolding PushBack_calls_append r using p by (simp del: PushBack_call.simps)
  then show ?thesis using f2 unfolding sp by (simp add: heap_of_def)
qed

lemma PushBack_1: "PushBack_rv int_env 1 Vector_default empty_heap = (None, vec_p1, heap_p1)"
  by (simp add: PushBack_rv_def EmplaceBack_def move_ctor_def int_env_def Vector_default_def
      empty_heap_def heap_prims vec_p1_def heap_p1_def)

lemma PushBack_2: "PushBack_rv int_env 2 vec_p1 heap_p1 = (None, vec_p2, heap_p2)"
  by (simp add: PushBack_rv_def EmplaceBack_def move_ctor_def int_env_def MoveIterTo_def
      release_def destroy_loop_def heap_prims vec_p1_def heap_p1_def vec_p2_def heap_p2_def
      eval_lists)

lemma PushBack_3: "PushBack_rv int_env 3 vec_p2 heap_p2 = (None, vec_p3, heap_p3)"
  by (simp add: PushBack_rv_def EmplaceBack_def move_ctor_def int_env_def MoveIterTo_def
      release_def destroy_loop_def heap_prims vec_p2_def heap_p2_def vec_p3_def heap_p3_def
      eval_lists)

lemma elems_p3: "elems heap_p3 vec_p3 = [Some 1, Some 2, Some 3]"
  by (simp add: elems_def index_def slot_def block_def heap_p3_def vec_p3_def eval_lists)

lemma valid_p1: "valid heap_p1 vec_p1"
  by (simp add: valid_def invariant_def vec_p1_def heap_p1_def block_def max_size_def)

lemma PushBack_movable_1:
  "PushBack_rv movable_env 1 Vector_default empty_heap = (None, vec_p1, heap_p1)"
  by (simp add: PushBack_rv_def EmplaceBack_def move_ctor_def movable_env_def Vector_default_def
      empty_heap_def heap_prims vec_p1_def heap_p1_def)

lemma index_p1: "index heap_p1 vec_p1 0 = Some 1"
  by (simp add: index_def slot_def block_def heap_p1_def vec_p1_def)

lemma PushBack_element_p1:
  "PushBack_element movable_env 0 vec_p1 heap_p1 = (None, vec_p2, heap_moved)"
  unfolding PushBack_element_def index_p1
  by (simp add: move_ctor_def movable_env_def MoveIterTo_def release_def destroy_loop_def
      heap_prims vec_p1_def heap_p1_def vec_p2_def heap_moved_def eval_lists)

lemma elems_moved: "elems heap_moved vec_p2 = [Some 0, Some 1]"
  by (simp add: elems_def index_def slot_def block_def heap_moved_def vec_p2_def eval_lists)

text \<open>
  C5 as stated fails in two places. When a call passes an element of the container
  itself as an rvalue: after \<open>v.push_back(1); v.push_back(std::move(v[0]));\<close> for
  an element type whose moved-from state is 0, the values pushed were 1 and 1 and
  the container holds 0 and 1. And when the container has more than \<open>INT_MAX\<close>
  elements: the last of \<open>2^31 + 1\<close> calls migrates \<open>2^31\<close> elements and overflows
  the \<open>int\<close> counter of \<open>MoveIterTo\<close>.
\<close>

theorem C5_PushBack_moved_element:
  "PushBack_calls movable_env [Rvalue 1, Moved_element 0] Vector_default empty_heap =
     (None, vec_p2, heap_moved) \<and>
   PushBack_call movable_env (Rvalue 1) Vector_default empty_heap = (None, vec_p1, heap_p1) \<and>
   index heap_p1 vec_p1 0 = Some 1 \<and>
   PushBack_call movable_env (Moved_element 0) vec_p1 heap_p1 = (None, vec_p2, heap_moved) \<and>
   Size vec_p2 = 2 \<and> elems heap_moved vec_p2 = [Some 0, Some 1] \<and>
   faults heap_moved = [] \<and>
   int_max < 2 ^ 31 \<and>
   faults (heap_of (PushBack_calls int_env (replicate (2 ^ 31 + 1) (Lvalue 0))
                      Vector_default empty_heap)) = [IntOverflow]"
proof -
  have a: "PushBack_calls movable_env [Rvalue 1, Moved_element 0] Vector_default empty_heap =
     (None, vec_p2, heap_moved)"
    by (simp add: PushBack_movable_1 PushBack_element_p1)
  have b: "PushBack_call movable_env (Rvalue 1) Vector_default empty_heap = (None, vec_p1, heap_p1)"
    "PushBack_call movable_env (Moved_element 0) vec_p1 heap_p1 = (None, vec_p2, heap_moved)"
    by (simp_all add: PushBack_movable_1 PushBack_element_p1)
  have c: "Size vec_p2 = 2" "faults heap_moved = []"
    by (simp_all add: Size_def vec_p2_def heap_moved_def)
  have d: "int_max < 2 ^ 31" "(2::nat) ^ 31 \<le> Suc int_max" by (simp_all add: int_max_def)
  note e = PushBack_calls_overflow [OF refl d]
  show ?thesis
    using a b c d(1) e index_p1 elems_moved by blast
qed

text \<open>
  C5 (amended). When every call of a sequence of at most \<open>2^31\<close> \<open>PushBack\<close> calls
  on a default-constructed container returns, and every argument is an object of
  the caller (an lvalue or an rvalue, not an element of the container passed as
  an rvalue), the size is the number of calls and the pushed values are the
  elements, in call order, with no undefined behaviour. Every call returns when no
  allocation fails and no copy or move constructor throws. A \<open>PushBack\<close> that
  returns on a container in a valid state with at most \<open>INT_MAX\<close> elements
  appends its argument and adds one to the size; when it found
  \<open>size == capacity\<close> the capacity goes from 0 to 1 and otherwise doubles, and
  else the capacity stays. \<open>push_back(1)\<close>, \<open>push_back(2)\<close>, \<open>push_back(3)\<close> on an
  empty \<open>Vector<int>\<close> give size 3, the capacities 1, 2, 4 and the elements 1, 2, 3.
\<close>

theorem C5_PushBack_sequence:
  assumes "length as \<le> Suc int_max" and "\<forall>a\<in>set as. caller_object a"
  shows "(raised (PushBack_calls E as Vector_default h) = None \<longrightarrow>
            Size (vec_of (PushBack_calls E as Vector_default h)) = length as \<and>
            elems (heap_of (PushBack_calls E as Vector_default h))
                  (vec_of (PushBack_calls E as Vector_default h)) =
              map argument_value as \<and>
            (\<forall>i<length as. index (heap_of (PushBack_calls E as Vector_default h))
                  (vec_of (PushBack_calls E as Vector_default h)) i =
                argument_value (as ! i)) \<and>
            valid (heap_of (PushBack_calls E as Vector_default h))
                  (vec_of (PushBack_calls E as Vector_default h)) \<and>
            faults (heap_of (PushBack_calls E as Vector_default h)) = faults h) \<and>
         ((\<forall>n. \<not> alloc_fails E n) \<and> (\<forall>i x. \<not> copy_throws E i x) \<and>
          (\<forall>i x. \<not> move_throws E i x) \<longrightarrow>
            raised (PushBack_calls E as Vector_default h) = None) \<and>
         (\<forall>v g a. valid g v \<and> size_m v \<le> int_max \<and> caller_object a \<and>
                  raised (PushBack_call E a v g) = None \<longrightarrow>
             Size (vec_of (PushBack_call E a v g)) = Size v + 1 \<and>
             Capacity (vec_of (PushBack_call E a v g)) =
               (if Size v = Capacity v
                then (if Capacity v = 0 then 1 else 2 * Capacity v)
                else Capacity v) \<and>
             elems (heap_of (PushBack_call E a v g)) (vec_of (PushBack_call E a v g)) =
               elems g v @ [argument_value a] \<and>
             faults (heap_of (PushBack_call E a v g)) = faults g) \<and>
         (PushBack_rv int_env 1 Vector_default empty_heap = (None, vec_p1, heap_p1) \<and>
          PushBack_rv int_env 2 vec_p1 heap_p1 = (None, vec_p2, heap_p2) \<and>
          PushBack_rv int_env 3 vec_p2 heap_p2 = (None, vec_p3, heap_p3) \<and>
          Capacity vec_p1 = 1 \<and> Capacity vec_p2 = 2 \<and> Capacity vec_p3 = 4 \<and>
          Size vec_p3 = 3 \<and> elems heap_p3 vec_p3 = [Some 1, Some 2, Some 3])"
proof -
  have d: "size_m Vector_default = 0" "elems h Vector_default = []"
    by (simp_all add: Vector_default_def elems_def)
  have seq: "Size (vec_of (PushBack_calls E as Vector_default h)) = length as \<and>
            elems (heap_of (PushBack_calls E as Vector_default h))
                  (vec_of (PushBack_calls E as Vector_default h)) =
              map argument_value as \<and>
            (\<forall>i<length as. index (heap_of (PushBack_calls E as Vector_default h))
                  (vec_of (PushBack_calls E as Vector_default h)) i =
                argument_value (as ! i)) \<and>
            valid (heap_of (PushBack_calls E as Vector_default h))
                  (vec_of (PushBack_calls E as Vector_default h)) \<and>
            faults (heap_of (PushBack_calls E as Vector_default h)) = faults h"
    if ret: "raised (PushBack_calls E as Vector_default h) = None"
  proof -
    from ret obtain v' h' where r: "PushBack_calls E as Vector_default h = (None, v', h')"
      by (cases "PushBack_calls E as Vector_default h") (auto simp: raised_def)
    have s0: "valid h' v' \<and> grown v' \<and> size_m v' = length as \<and>
      elems h' v' = map argument_value as \<and>
      (length as \<le> Suc int_max \<longrightarrow> faults h' = faults h)"
      using PushBack_calls_ok [OF valid_Vector_default grown_Vector_default assms(2) r]
      unfolding d by simp
    then have s: "valid h' v'" "size_m v' = length as"
      "elems h' v' = map argument_value as" "faults h' = faults h"
      using assms(1) by blast+
    have idx: "\<forall>i<length as. index h' v' i = argument_value (as ! i)"
    proof (intro allI impI)
      fix i assume i: "i < length as"
      then have "elems h' v' ! i = index h' v' i" using s(2) by (simp add: elems_nth)
      then show "index h' v' i = argument_value (as ! i)" using i s(3) by simp
    qed
    show ?thesis using s idx by (simp add: r vec_of_def heap_of_def Size_def)
  qed
  have total: "raised (PushBack_calls E as Vector_default h) = None"
    if env: "(\<forall>n. \<not> alloc_fails E n) \<and> (\<forall>i x. \<not> copy_throws E i x) \<and>
             (\<forall>i x. \<not> move_throws E i x)"
  proof -
    have "size_m Vector_default + length as \<le> 2 ^ 61"
      using assms(1) by (simp add: Vector_default_def int_max_def)
    from PushBack_calls_returns [OF valid_Vector_default grown_Vector_default assms(2) this]
    show ?thesis using env by blast
  qed
  have step: "\<forall>v g a. valid g v \<and> size_m v \<le> int_max \<and> caller_object a \<and>
                  raised (PushBack_call E a v g) = None \<longrightarrow>
             Size (vec_of (PushBack_call E a v g)) = Size v + 1 \<and>
             Capacity (vec_of (PushBack_call E a v g)) =
               (if Size v = Capacity v
                then (if Capacity v = 0 then 1 else 2 * Capacity v)
                else Capacity v) \<and>
             elems (heap_of (PushBack_call E a v g)) (vec_of (PushBack_call E a v g)) =
               elems g v @ [argument_value a] \<and>
             faults (heap_of (PushBack_call E a v g)) = faults g"
  proof (intro allI impI)
    fix v g a assume a: "valid g v \<and> size_m v \<le> int_max \<and> caller_object a \<and>
                  raised (PushBack_call E a v g) = None"
    then obtain v1 g1 where p: "PushBack_call E a v g = (None, v1, g1)"
      by (cases "PushBack_call E a v g") (auto simp: raised_def)
    have le: "size_m v \<le> capacity_m v" using a by (simp add: valid_def invariant_def)
    from a have va: "valid g v" and ca: "caller_object a" by simp_all
    from PushBack_call_ok [OF va ca p] a le
    show "Size (vec_of (PushBack_call E a v g)) = Size v + 1 \<and>
          Capacity (vec_of (PushBack_call E a v g)) =
               (if Size v = Capacity v
                then (if Capacity v = 0 then 1 else 2 * Capacity v)
                else Capacity v) \<and>
             elems (heap_of (PushBack_call E a v g)) (vec_of (PushBack_call E a v g)) =
               elems g v @ [argument_value a] \<and>
             faults (heap_of (PushBack_call E a v g)) = faults g"
      by (auto simp: p vec_of_def heap_of_def Size_def Capacity_def)
  qed
  have scen: "PushBack_rv int_env 1 Vector_default empty_heap = (None, vec_p1, heap_p1) \<and>
          PushBack_rv int_env 2 vec_p1 heap_p1 = (None, vec_p2, heap_p2) \<and>
          PushBack_rv int_env 3 vec_p2 heap_p2 = (None, vec_p3, heap_p3) \<and>
          Capacity vec_p1 = 1 \<and> Capacity vec_p2 = 2 \<and> Capacity vec_p3 = 4 \<and>
          Size vec_p3 = 3 \<and> elems heap_p3 vec_p3 = [Some 1, Some 2, Some 3]"
    by (simp add: PushBack_1 PushBack_2 PushBack_3 elems_p3)
       (simp add: Capacity_def Size_def vec_p1_def vec_p2_def vec_p3_def)
  show ?thesis
    using seq total step scen by blast
qed

theorem C5_PushBack_sequence_witness:
  "length [Lvalue 1, Rvalue 2, Lvalue (3::int)] \<le> Suc int_max \<and>
   caller_object (Lvalue (1::int)) \<and> caller_object (Rvalue (2::int)) \<and>
   caller_object (Lvalue (3::int)) \<and>
   raised (PushBack_calls int_env [Lvalue 1, Rvalue 2, Lvalue 3] Vector_default empty_heap) = None \<and>
   Size (vec_of (PushBack_calls int_env [Lvalue 1, Rvalue 2, Lvalue 3] Vector_default empty_heap)) = 3 \<and>
   elems (heap_of (PushBack_calls int_env [Lvalue 1, Rvalue 2, Lvalue 3] Vector_default empty_heap))
         (vec_of (PushBack_calls int_env [Lvalue 1, Rvalue 2, Lvalue 3] Vector_default empty_heap)) =
     [Some 1, Some 2, Some 3] \<and>
   faults (heap_of (PushBack_calls int_env [Lvalue 1, Rvalue 2, Lvalue 3] Vector_default empty_heap)) = [] \<and>
   valid heap_p1 vec_p1 \<and> size_m vec_p1 \<le> int_max \<and>
   raised (PushBack_call int_env (Rvalue 2) vec_p1 heap_p1) = None \<and>
   Capacity (vec_of (PushBack_call int_env (Rvalue 2) vec_p1 heap_p1)) = 2"
proof -
  let ?as = "[Lvalue 1, Rvalue 2, Lvalue (3::int)]"
  have len: "length ?as \<le> Suc int_max" by (simp add: int_max_def)
  have all: "\<forall>a\<in>set ?as. caller_object a" by simp
  have env: "(\<forall>n. \<not> alloc_fails int_env n) \<and> (\<forall>i x. \<not> copy_throws int_env i x) \<and>
             (\<forall>i x. \<not> move_throws int_env i x)"
    by (simp add: int_env_def)
  have ok2: "valid heap_p1 vec_p1 \<and> size_m vec_p1 \<le> int_max \<and> caller_object (Rvalue (2::int)) \<and>
             raised (PushBack_call int_env (Rvalue 2) vec_p1 heap_p1) = None"
    by (simp add: valid_p1 PushBack_2 raised_def) (simp add: vec_p1_def int_max_def)
  note c = C5_PushBack_sequence [OF len all, of int_env empty_heap]
  from c env have ok: "raised (PushBack_calls int_env ?as Vector_default empty_heap) = None"
    by blast
  from c ok have "Size (vec_of (PushBack_calls int_env ?as Vector_default empty_heap)) = length ?as"
    by blast
  moreover from c ok have "elems (heap_of (PushBack_calls int_env ?as Vector_default empty_heap))
         (vec_of (PushBack_calls int_env ?as Vector_default empty_heap)) =
         map argument_value ?as"
    by blast
  moreover from c ok have
    "faults (heap_of (PushBack_calls int_env ?as Vector_default empty_heap)) =
     faults (empty_heap :: int heap)"
    by blast
  moreover from c ok2 have "Capacity (vec_of (PushBack_call int_env (Rvalue 2) vec_p1 heap_p1)) =
               (if Size vec_p1 = Capacity vec_p1
                then (if Capacity vec_p1 = 0 then 1 else 2 * Capacity vec_p1)
                else Capacity vec_p1)"
    by blast
  ultimately show ?thesis using ok ok2 len
    by (simp add: Size_def Capacity_def vec_p1_def empty_heap_def)
qed

section \<open>ShrinkToFit\<close>













section \<open>Resize beyond the capacity\<close>

lemma Resize_with_grow_unfold:
  assumes "capacity_m v < n" and "size_m v \<le> capacity_m v"
    and "allocate E (size_t (n * 2)) h = Some (nb, h1)"
    and "construct_loop mk (Some nb) [size_m v..<n] 0 h1 = (t, count, h2)"
    and "MoveIterTo E v (Some nb) h2 = (t', h3)"
  shows "Resize_with E mk n v h =
     (if t \<or> t' then
        (Some ElementOperationFailure, v,
         deallocate (Some nb) (capacity_m v)
           (destroy_loop (Some nb) (size_m v) (size_m v + count) (if t then h2 else h3)))
      else (None, \<lparr>buffer_m = Some nb, size_m = n, capacity_m = size_t (n * 2)\<rparr>, release v h3))"
  using assms by (cases t; cases t') (simp_all add: Resize_with_def)

lemma Resize_with_ctor_throws:
  assumes inv: "invariant h v" and gt: "capacity_m v < n"
    and al: "allocate E (size_t (n * 2)) h \<noteq> None"
    and th: "\<exists>i. size_m v \<le> i \<and> i < n \<and> mk i = None"
  shows "raised (Resize_with E mk n v h) = Some ElementOperationFailure \<and>
         vec_of (Resize_with E mk n v h) = v \<and>
         elems (heap_of (Resize_with E mk n v h)) v = elems h v \<and>
         invariant (heap_of (Resize_with E mk n v h)) v"
proof -
  have le: "size_m v \<le> capacity_m v" using inv by (simp add: invariant_def)
  from al obtain nb h1 where a: "allocate E (size_t (n * 2)) h = Some (nb, h1)" by auto
  obtain t count h2 where c: "construct_loop mk (Some nb) [size_m v..<n] 0 h1 = (t, count, h2)"
    by (cases "construct_loop mk (Some nb) [size_m v..<n] 0 h1") auto
  obtain t' h3 where m: "MoveIterTo E v (Some nb) h2 = (t', h3)"
    by (cases "MoveIterTo E v (Some nb) h2") auto
  have t: "t" using construct_loop_throws [of mk "Some nb" "[size_m v..<n]" 0 h1] th c by auto
  let ?h' = "deallocate (Some nb) (capacity_m v)
           (destroy_loop (Some nb) (size_m v) (size_m v + count) h2)"
  have r: "Resize_with E mk n v h = (Some ElementOperationFailure, v, ?h')"
    using Resize_with_grow_unfold [OF gt le a c m] t by simp
  have nbl: "nb = length (blocks h)" using allocate_SomeD [OF a] by simp
  have frame: "block ?h' b = block h b" if b: "buffer_m v = Some b" for b
  proof -
    from invariant_SomeD [OF inv b] have bl: "b < length (blocks h)"
      by (auto simp: block_def split: if_splits)
    then have ne: "Some nb \<noteq> Some b" using nbl by simp
    have "block h2 b = block h1 b"
      using block_construct_loop_other [OF ne, of mk "[size_m v..<n]" 0 h1] c by simp
    then show ?thesis
      using allocate_block(2) [OF a bl] ne
      by (simp add: block_deallocate_other block_destroy_loop_other)
  qed
  have "elems ?h' v = elems h v" by (rule elems_frame) (rule frame)
  moreover have "invariant ?h' v" using inv invariant_frame [of v ?h' h] frame by simp
  ultimately show ?thesis by (simp add: r raised_def vec_of_def heap_of_def)
qed

lemma Resize_with_grow_ok:
  assumes inv: "invariant h v" and gt: "capacity_m v < n" and small: "n * 2 < 2 ^ 64"
    and res: "Resize_with E mk n v h = (None, v', h')"
  shows "v' = \<lparr>buffer_m = Some (length (blocks h)), size_m = n, capacity_m = 2 * n\<rparr> \<and>
         trace h' = trace h @ [Allocate (length (blocks h)) (2 * n)] @
            map (Construct (Some (length (blocks h)))) [size_m v..<n] @
            map (Construct (Some (length (blocks h)))) [0..<size_m v] @
            map (Destroy (buffer_m v)) [0..<size_m v] @
            [Deallocate (buffer_m v) (capacity_m v)] \<and>
         elems h' v' = elems h v @ map mk [size_m v..<n] \<and>
         (\<forall>i\<in>set [size_m v..<n]. mk i \<noteq> None) \<and>
         invariant h' v' \<and>
         (\<forall>b. buffer_m v = Some b \<longrightarrow> block h' b = None) \<and>
         (size_m v \<le> int_max \<longrightarrow> faults h' = faults h) \<and>
         faults h' = faults h @ (if int_max < size_m v then [IntOverflow] else [])"
proof -
  let ?s = "size_m v"
  have le: "?s \<le> capacity_m v" using inv by (simp add: invariant_def)
  have n2: "size_t (n * 2) = 2 * n" using small by (simp add: size_t_small mult.commute)
  obtain nb h1 where a: "allocate E (2 * n) h = Some (nb, h1)"
    using res gt le by (cases "allocate E (2 * n) h") (auto simp: Resize_with_def n2)
  obtain t count h2 where c: "construct_loop mk (Some nb) [?s..<n] 0 h1 = (t, count, h2)"
    by (cases "construct_loop mk (Some nb) [?s..<n] 0 h1") auto
  obtain t' h3 where m: "MoveIterTo E v (Some nb) h2 = (t', h3)"
    by (cases "MoveIterTo E v (Some nb) h2") auto
  note unf = Resize_with_grow_unfold [OF gt le a [folded n2] c m]
  from unf res have tt: "\<not> t" "\<not> t'" by (auto split: if_splits)
  from unf res tt have v': "v' = \<lparr>buffer_m = Some nb, size_m = n, capacity_m = 2 * n\<rparr>"
    and h'0: "h' = release v h3" by (simp_all add: n2)
  have nbl: "nb = length (blocks h)" using allocate_SomeD [OF a] by simp
  have blk1: "block h1 nb = Some (replicate (2 * n) None)"
    and tr1: "trace h1 = trace h @ [Allocate nb (2 * n)]"
    using allocate_block [OF a] by simp_all
  have mk: "\<forall>i\<in>set [?s..<n]. mk i \<noteq> None"
    using construct_loop_throws [of mk "Some nb" "[?s..<n]" 0 h1] c tt by auto
  let ?ds = "fold (\<lambda>i s. s[i := mk i]) [?s..<n] (replicate (2 * n) None)"
  have "construct_loop mk (Some nb) [?s..<n] 0 h1 =
          (False, 0 + length [?s..<n],
           h1\<lparr>blocks := (blocks h1)[nb := Some ?ds],
              trace := trace h1 @ map (Construct (Some nb)) [?s..<n]\<rparr>)"
    using mk by (intro construct_loop_ok [OF blk1]) auto
  with c have h2: "h2 = h1\<lparr>blocks := (blocks h1)[nb := Some ?ds],
              trace := trace h1 @ map (Construct (Some nb)) [?s..<n]\<rparr>"
    by simp
  have blk2: "block h2 nb = Some ?ds"
    using blk1 by (simp add: h2 block_def split: if_splits)
  have tr2: "trace h2 = trace h @ [Allocate nb (2 * n)] @ map (Construct (Some nb)) [?s..<n]"
    by (simp add: h2 tr1)
  have old2: "block h2 b = block h b" if b: "buffer_m v = Some b" for b
  proof -
    from invariant_SomeD [OF inv b] have bl: "b < length (blocks h)"
      by (auto simp: block_def split: if_splits)
    then have ne: "Some nb \<noteq> Some b" using nbl by simp
    have "block h2 b = block h1 b"
      using block_construct_loop_other [OF ne, of mk "[?s..<n]" 0 h1] c by simp
    then show ?thesis using allocate_block(2) [OF a bl] by simp
  qed
  have bnb: "buffer_m v \<noteq> Some nb"
  proof
    assume b: "buffer_m v = Some nb"
    from invariant_SomeD [OF inv b] have "nb < length (blocks h)"
      by (auto simp: block_def split: if_splits)
    then show False using nbl by simp
  qed
  have inv2: "invariant h2 v" using inv invariant_frame [of v h2 h] old2 by simp
  have el2: "elems h2 v = elems h v" by (rule elems_frame) (rule old2)
  have pre: "?s \<le> length ?ds" "\<forall>i<?s. ?ds ! i = None"
    using gt le by (auto simp: fold_update_nth)
  have ok: "\<not> fst (MoveIterTo E v (Some nb) h2)" using m tt by simp
  have h': "h' = release v (snd (MoveIterTo E v (Some nb) h2))" using m h'0 by simp
  note M = migrate_ok [OF inv2 blk2 bnb pre ok]
  have dr: "drop ?s ?ds = map mk [?s..<n] @ replicate (n) None"
    using gt le by (intro nth_equalityI) (auto simp: fold_update_nth nth_append)
  have blk: "block h' nb = Some ((elems h v @ map mk [?s..<n]) @ replicate n None)"
    using M(1) by (simp add: h' el2 dr)
  have all_mk: "list_all (\<lambda>s. s \<noteq> None) (map mk [?s..<n])"
    using mk by (simp add: list_all_iff)
  have "invariant h' v'" "elems h' v' = elems h v @ map mk [?s..<n]"
    using gt le list_all_elems [OF inv] all_mk
    by (auto intro!: invariant_appendI [OF _ blk] simp: v' list_all_iff)
  moreover have "trace h' = trace h @ [Allocate nb (2 * n)] @
            map (Construct (Some nb)) [?s..<n] @ map (Construct (Some nb)) [0..<?s] @
            map (Destroy (buffer_m v)) [0..<?s] @ [Deallocate (buffer_m v) (capacity_m v)]"
    using M(5) by (simp add: h' tr2)
  moreover have "\<forall>b. buffer_m v = Some b \<longrightarrow> block h' b = None"
    using M(2) by (simp add: h')
  moreover have "size_m v \<le> int_max \<longrightarrow> faults h' = faults h"
    using M(6) allocate_block(5) [OF a] by (simp add: h' h2)
  moreover have "faults h' = faults h @ (if int_max < size_m v then [IntOverflow] else [])"
    using M(7) allocate_block(5) [OF a] by (simp add: h' h2)
  ultimately show ?thesis using mk by (simp add: v' nbl)
qed

lemma Resize_with_returns:
  assumes inv: "invariant h v" and gt: "capacity_m v < n" and fit: "n * 2 \<le> max_size"
    and al: "\<not> alloc_fails E (n * 2)"
    and mk: "\<forall>i. size_m v \<le> i \<and> i < n \<longrightarrow> mk i \<noteq> None"
    and mv: "\<forall>i x. \<not> move_throws E i x"
  shows "raised (Resize_with E mk n v h) = None"
proof -
  let ?s = "size_m v"
  have le: "?s \<le> capacity_m v" using inv by (simp add: invariant_def)
  have n2: "size_t (n * 2) = 2 * n" using fit by (simp add: size_t_small max_size_def)
  obtain nb h1 where a: "allocate E (2 * n) h = Some (nb, h1)"
    using fit al by (simp add: allocate_def mult.commute)
  obtain t count h2 where c: "construct_loop mk (Some nb) [?s..<n] 0 h1 = (t, count, h2)"
    by (cases "construct_loop mk (Some nb) [?s..<n] 0 h1") auto
  obtain t' h3 where m: "MoveIterTo E v (Some nb) h2 = (t', h3)"
    by (cases "MoveIterTo E v (Some nb) h2") auto
  note unf = Resize_with_grow_unfold [OF gt le a [folded n2] c m]
  have t: "\<not> t" using construct_loop_throws [of mk "Some nb" "[?s..<n]" 0 h1] c mk by auto
  have nbl: "nb = length (blocks h)" using allocate_SomeD [OF a] by simp
  have blk1: "block h1 nb = Some (replicate (2 * n) None)"
    using allocate_block [OF a] by simp
  have mk': "\<forall>i\<in>set [?s..<n]. mk i \<noteq> None" using mk by auto
  let ?ds = "fold (\<lambda>i s. s[i := mk i]) [?s..<n] (replicate (2 * n) None)"
  have "construct_loop mk (Some nb) [?s..<n] 0 h1 =
          (False, 0 + length [?s..<n],
           h1\<lparr>blocks := (blocks h1)[nb := Some ?ds],
              trace := trace h1 @ map (Construct (Some nb)) [?s..<n]\<rparr>)"
    using mk' by (intro construct_loop_ok [OF blk1]) auto
  with c have h2: "h2 = h1\<lparr>blocks := (blocks h1)[nb := Some ?ds],
              trace := trace h1 @ map (Construct (Some nb)) [?s..<n]\<rparr>"
    by simp
  have blk2: "block h2 nb = Some ?ds"
    using blk1 by (simp add: h2 block_def split: if_splits)
  have old2: "block h2 b = block h b" if b: "buffer_m v = Some b" for b
  proof -
    from invariant_SomeD [OF inv b] have bl: "b < length (blocks h)"
      by (auto simp: block_def split: if_splits)
    then have ne: "Some nb \<noteq> Some b" using nbl by simp
    have "block h2 b = block h1 b"
      using block_construct_loop_other [OF ne, of mk "[?s..<n]" 0 h1] c by simp
    then show ?thesis using allocate_block(2) [OF a bl] by simp
  qed
  have bnb: "buffer_m v \<noteq> Some nb"
  proof
    assume b: "buffer_m v = Some nb"
    from invariant_SomeD [OF inv b] have "nb < length (blocks h)"
      by (auto simp: block_def split: if_splits)
    then show False using nbl by simp
  qed
  have inv2: "invariant h2 v" using inv invariant_frame [of v h2 h] old2 by simp
  have pre: "?s \<le> length ?ds" "\<forall>i<?s. ?ds ! i = None"
    using gt le by (auto simp: fold_update_nth)
  have "\<not> fst (MoveIterTo E v (Some nb) h2)"
    by (rule MoveIterTo_returns [OF inv2 blk2 bnb pre mv])
  then have t': "\<not> t'" using m by simp
  show ?thesis using unf t t' by (simp add: raised_def)
qed

lemma invariant_12: "invariant heap_12 vec_12"
  by (simp add: invariant_def vec_12_def heap_12_def block_def)

lemma Resize_value_12:
  "Resize_value fragile_env 3 7 vec_12 heap_12 =
     (Some ElementOperationFailure, vec_12,
      \<lparr>blocks = [Some [Some 1, Some 2], None],
       trace = [Allocate 0 2, Construct (Some 0) 0, Construct (Some 0) 1,
                Allocate 1 6, Deallocate (Some 1) 2],
       faults = [Deallocate (Some 1) 2]\<rparr>)"
  by (simp add: Resize_value_def Resize_with_def copy_ctor_def fragile_env_def heap_prims
      heap_12_def vec_12_def destroy_loop_def eval_lists)

lemma construct_loop_append:
  "construct_loop mk p (js @ ks) c h =
     (case construct_loop mk p js c h of
        (True, c', h') \<Rightarrow> (True, c', h')
      | (False, c', h') \<Rightarrow> construct_loop mk p ks c' h')"
  by (induction js arbitrary: c h) (auto split: option.splits)

lemma upt_split: "a \<le> k \<Longrightarrow> k < n \<Longrightarrow> [a..<n] = [a..<k] @ k # [Suc k..<n]"
  using upt_add_eq_append [of a k "n - k"] by (simp add: upt_conv_Cons)

lemma faults_deallocate_wrong:
  "block h b = Some sl \<Longrightarrow> length sl \<noteq> n \<Longrightarrow>
   deallocate (Some b) n h =
     h\<lparr>blocks := (blocks h)[b := None], trace := trace h @ [Deallocate (Some b) n],
       faults := faults h @ [Deallocate (Some b) n]\<rparr>"
  by (simp add: deallocate_def called_def fault_def)

lemma Resize_with_ctor_throws_exact:
  assumes inv: "invariant h v" and gt: "capacity_m v < n" and small: "n * 2 < 2 ^ 64"
    and al: "allocate E (size_t (n * 2)) h \<noteq> None"
    and th: "\<exists>i. size_m v \<le> i \<and> i < n \<and> mk i = None"
  shows "faults (heap_of (Resize_with E mk n v h)) =
           faults h @ [Deallocate (Some (length (blocks h))) (capacity_m v)] \<and>
         block (heap_of (Resize_with E mk n v h)) (length (blocks h)) = None \<and>
         length (blocks (heap_of (Resize_with E mk n v h))) = Suc (length (blocks h)) \<and>
         (\<exists>k. size_m v \<le> k \<and> k < n \<and> mk k = None \<and> (\<forall>i. size_m v \<le> i \<and> i < k \<longrightarrow> mk i \<noteq> None) \<and>
            trace (heap_of (Resize_with E mk n v h)) =
              trace h @ [Allocate (length (blocks h)) (2 * n)] @
              map (Construct (Some (length (blocks h)))) [size_m v..<k] @
              map (Destroy (Some (length (blocks h)))) [size_m v..<k] @
              [Deallocate (Some (length (blocks h))) (capacity_m v)])"
proof -
  let ?s = "size_m v"
  have le: "?s \<le> capacity_m v" using inv by (simp add: invariant_def)
  have n2: "size_t (n * 2) = 2 * n" using small by (simp add: size_t_small mult.commute)
  from al obtain nb h1 where a: "allocate E (2 * n) h = Some (nb, h1)" by (auto simp: n2)
  have nbl: "nb = length (blocks h)" using allocate_SomeD [OF a] by simp
  have blk1: "block h1 nb = Some (replicate (2 * n) None)"
    and tr1: "trace h1 = trace h @ [Allocate nb (2 * n)]"
    and f1: "faults h1 = faults h"
    and len1: "length (blocks h1) = Suc (length (blocks h))"
    using allocate_block [OF a] by simp_all
  define P where "P i \<longleftrightarrow> ?s \<le> i \<and> i < n \<and> mk i = None" for i
  from th have "\<exists>i. P i" by (simp add: P_def)
  then obtain k where "P k" and least: "\<forall>m<k. \<not> P m"
    using exists_least_iff [of P] by blast
  then have k: "?s \<le> k" "k < n" "mk k = None"
    and before: "\<forall>i. ?s \<le> i \<and> i < k \<longrightarrow> mk i \<noteq> None"
    by (auto simp: P_def)
  have split: "[?s..<n] = [?s..<k] @ k # [Suc k..<n]" using k by (intro upt_split)
  let ?ds = "fold (\<lambda>i s. s[i := mk i]) [?s..<k] (replicate (2 * n) None)"
  define h2 where "h2 = h1\<lparr>blocks := (blocks h1)[nb := Some ?ds],
              trace := trace h1 @ map (Construct (Some nb)) [?s..<k]\<rparr>"
  have c1: "construct_loop mk (Some nb) [?s..<k] 0 h1 = (False, 0 + length [?s..<k], h2)"
    unfolding h2_def using before k by (intro construct_loop_ok [OF blk1]) auto
  have c: "construct_loop mk (Some nb) [?s..<n] 0 h1 = (True, k - ?s, h2)"
    unfolding split construct_loop_append c1 using k by simp
  obtain t' h3 where m: "MoveIterTo E v (Some nb) h2 = (t', h3)"
    by (cases "MoveIterTo E v (Some nb) h2") auto
  define h4 where "h4 = destroy_loop (Some nb) ?s k h2"
  define h' where "h' = deallocate (Some nb) (capacity_m v) h4"
  have r: "Resize_with E mk n v h = (Some ElementOperationFailure, v, h')"
    using Resize_with_grow_unfold [OF gt le a [folded n2] c m] k by (simp add: h'_def h4_def)
  have nb1: "nb < length (blocks h1)" using len1 nbl by simp
  have blk2: "block h2 nb = Some ?ds" using nb1 by (simp add: block_def h2_def)
  have pre: "k \<le> length ?ds" "\<forall>i. ?s \<le> i \<and> i < k \<longrightarrow> ?ds ! i \<noteq> None"
    using k before by (auto simp: fold_update_nth)
  have h4: "h4 = h2\<lparr>blocks := (blocks h2)[nb := Some (fold (\<lambda>i s. s[i := None]) [?s..<k] ?ds)],
                     trace := trace h2 @ map (Destroy (Some nb)) [?s..<k]\<rparr>"
    unfolding h4_def by (rule destroy_loop_ok [OF blk2 pre])
  have nb2: "nb < length (blocks h2)" using nb1 by (simp add: h2_def)
  have blk4: "block h4 nb = Some (fold (\<lambda>i s. s[i := None]) [?s..<k] ?ds)"
    using nb2 by (simp add: h4 block_def)
  have ne: "length (fold (\<lambda>i s. s[i := None]) [?s..<k] ?ds) \<noteq> capacity_m v"
    using gt by simp
  have h': "h' = h4\<lparr>blocks := (blocks h4)[nb := None],
                     trace := trace h4 @ [Deallocate (Some nb) (capacity_m v)],
                     faults := faults h4 @ [Deallocate (Some nb) (capacity_m v)]\<rparr>"
    unfolding h'_def by (rule faults_deallocate_wrong [OF blk4 ne])
  have f4: "faults h4 = faults h" by (simp add: h4 h2_def f1)
  have t4: "trace h4 = trace h @ [Allocate nb (2 * n)] @
              map (Construct (Some nb)) [?s..<k] @ map (Destroy (Some nb)) [?s..<k]"
    by (simp add: h4 h2_def tr1)
  have l4: "length (blocks h4) = Suc (length (blocks h))" by (simp add: h4 h2_def len1)
  have "faults h' = faults h @ [Deallocate (Some nb) (capacity_m v)]"
    by (simp add: h' f4)
  moreover have "block h' nb = None"
    using l4 nbl by (simp add: h' block_def)
  moreover have "length (blocks h') = Suc (length (blocks h))"
    by (simp add: h' l4)
  moreover have "trace h' = trace h @ [Allocate nb (2 * n)] @
              map (Construct (Some nb)) [?s..<k] @ map (Destroy (Some nb)) [?s..<k] @
              [Deallocate (Some nb) (capacity_m v)]"
    by (simp add: h' t4)
  ultimately show ?thesis
    using k before unfolding r heap_of_def nbl [symmetric] by auto
qed

lemma upt_2_from: "2 < n \<Longrightarrow> [2..<n] = 2 # [3..<n]"
  using upt_conv_Cons [of 2 n] by (simp add: eval_nat_numeral del: upt_rec_numeral)

lemma upt_3_from: "3 < n \<Longrightarrow> [3..<n] = 3 # [4..<n]"
  using upt_conv_Cons [of 3 n] by (simp add: eval_nat_numeral del: upt_rec_numeral)

lemma upt_2_3: "[2..<3] = [2::nat]"
  by (simp add: upt_conv_Cons)

lemma Resize_with_wraps:
  assumes "3 < n" and "size_t (n * 2) = 2" and "mk 2 = Some x" and "mk 3 = None"
  shows "Resize_with brittle_env mk n vec_12 heap_12 =
     (Some ElementOperationFailure, vec_12,
      \<lparr>blocks = [Some [Some 1, Some 2], None],
       trace = [Allocate 0 2, Construct (Some 0) 0, Construct (Some 0) 1,
                Allocate 1 2, Construct (Some 1) 2, Destroy (Some 1) 2, Deallocate (Some 1) 2],
       faults = [Construct (Some 1) 2, Destroy (Some 1) 2]\<rparr>)"
proof -
  let ?h1 = "\<lparr>blocks = [Some [Some 1, Some 2], Some [None, None]],
       trace = [Allocate 0 2, Construct (Some 0) 0, Construct (Some 0) 1, Allocate 1 2],
       faults = []\<rparr> :: int heap"
  let ?h2 = "\<lparr>blocks = [Some [Some 1, Some 2], Some [None, None]],
       trace = [Allocate 0 2, Construct (Some 0) 0, Construct (Some 0) 1, Allocate 1 2,
                Construct (Some 1) 2],
       faults = [Construct (Some 1) 2]\<rparr> :: int heap"
  have sz: "size_m vec_12 = 2" "capacity_m vec_12 = 2" by (simp_all add: vec_12_def)
  have gt: "capacity_m vec_12 < n" "size_m vec_12 \<le> capacity_m vec_12"
    using assms(1) by (simp_all add: sz)
  have a: "allocate brittle_env (size_t (n * 2)) heap_12 = Some (1, ?h1)"
    unfolding assms(2)
    by (simp add: allocate_def brittle_env_def heap_12_def called_def max_size_def
        replicate_numeral)
  have u: "[size_m vec_12..<n] = 2 # 3 # [4..<n]"
    using assms(1) by (simp add: sz upt_2_from upt_3_from)
  have c: "construct_loop mk (Some 1) [size_m vec_12..<n] 0 ?h1 = (True, 1, ?h2)"
    unfolding u
    by (simp add: assms(3,4) construct_def block_def called_def fault_def)
  obtain t' h3 where m: "MoveIterTo brittle_env vec_12 (Some 1) ?h2 = (t', h3)"
    by (cases "MoveIterTo brittle_env vec_12 (Some 1) ?h2") auto
  have d: "deallocate (Some 1) (capacity_m vec_12)
              (destroy_loop (Some 1) (size_m vec_12) (size_m vec_12 + 1) ?h2) =
     \<lparr>blocks = [Some [Some 1, Some 2], None],
       trace = [Allocate 0 2, Construct (Some 0) 0, Construct (Some 0) 1,
                Allocate 1 2, Construct (Some 1) 2, Destroy (Some 1) 2, Deallocate (Some 1) 2],
       faults = [Construct (Some 1) 2, Destroy (Some 1) 2]\<rparr>"
    by (simp add: sz destroy_loop_def upt_2_3 destroy_def deallocate_def block_def called_def
        fault_def)
  show ?thesis
    by (simp only: Resize_with_grow_unfold [OF gt a c m] d simp_thms if_True)
qed

text \<open>
  C3 as stated fails where \<open>size * 2\<close> wraps: \<open>Resize(2^63 + 1, 7)\<close> (and
  \<open>Resize(2^63 + 1)\<close>) on \<open>{1, 2}\<close>, for an element type whose construction of
  slot 3 throws, asks the allocator for 2 slots, constructs the element of slot 2
  past the end of that block, and destroys it there when slot 3 throws. The write
  outside the block is undefined behaviour: what the existing elements are after the
  call is not determined by the program.
\<close>

theorem C3_Resize_doubling_wraps:
  "invariant heap_12 vec_12 \<and> capacity_m vec_12 < 2 ^ 63 + 1 \<and>
   size_t ((2 ^ 63 + 1) * 2) = 2 \<and>
   allocate brittle_env (size_t ((2 ^ 63 + 1) * 2)) heap_12 \<noteq> None \<and>
   size_m vec_12 \<le> 3 \<and> (3::nat) < 2 ^ 63 + 1 \<and>
   copy_throws brittle_env 3 7 \<and> default_throws brittle_env 3 \<and>
   trace (heap_of (Resize_value brittle_env (2 ^ 63 + 1) 7 vec_12 heap_12)) =
     trace heap_12 @
     [Allocate 1 2, Construct (Some 1) 2, Destroy (Some 1) 2, Deallocate (Some 1) 2] \<and>
   faults (heap_of (Resize_value brittle_env (2 ^ 63 + 1) 7 vec_12 heap_12)) =
     [Construct (Some 1) 2, Destroy (Some 1) 2] \<and>
   trace (heap_of (Resize brittle_env (2 ^ 63 + 1) vec_12 heap_12)) =
     trace heap_12 @
     [Allocate 1 2, Construct (Some 1) 2, Destroy (Some 1) 2, Deallocate (Some 1) 2] \<and>
   faults (heap_of (Resize brittle_env (2 ^ 63 + 1) vec_12 heap_12)) =
     [Construct (Some 1) 2, Destroy (Some 1) 2] \<and>
   block heap_12 1 = None"
proof -
  have w: "size_t ((2 ^ 63 + 1) * 2) = 2" by (simp add: size_t_def)
  have big: "(3::nat) < 2 ^ 63 + 1" by simp
  have r1: "Resize_value brittle_env (2 ^ 63 + 1) 7 vec_12 heap_12 =
     (Some ElementOperationFailure, vec_12,
      \<lparr>blocks = [Some [Some 1, Some 2], None],
       trace = [Allocate 0 2, Construct (Some 0) 0, Construct (Some 0) 1,
                Allocate 1 2, Construct (Some 1) 2, Destroy (Some 1) 2, Deallocate (Some 1) 2],
       faults = [Construct (Some 1) 2, Destroy (Some 1) 2]\<rparr>)"
    unfolding Resize_value_def
    by (rule Resize_with_wraps [where x = 7, OF big w])
       (simp_all add: copy_ctor_def brittle_env_def)
  have r2: "Resize brittle_env (2 ^ 63 + 1) vec_12 heap_12 =
     (Some ElementOperationFailure, vec_12,
      \<lparr>blocks = [Some [Some 1, Some 2], None],
       trace = [Allocate 0 2, Construct (Some 0) 0, Construct (Some 0) 1,
                Allocate 1 2, Construct (Some 1) 2, Destroy (Some 1) 2, Deallocate (Some 1) 2],
       faults = [Construct (Some 1) 2, Destroy (Some 1) 2]\<rparr>)"
    unfolding Resize_def
    by (rule Resize_with_wraps [where x = 0, OF big w])
       (simp_all add: default_ctor_def brittle_env_def)
  have a: "allocate brittle_env (size_t ((2 ^ 63 + 1) * 2)) heap_12 \<noteq> None"
    unfolding w by (simp add: allocate_def brittle_env_def max_size_def)
  have c: "capacity_m vec_12 < 2 ^ 63 + 1" "size_m vec_12 \<le> 3" by (simp_all add: vec_12_def)
  have t: "copy_throws brittle_env 3 7" "default_throws brittle_env 3"
    by (simp_all add: brittle_env_def)
  have tr: "trace heap_12 = [Allocate 0 2, Construct (Some 0) 0, Construct (Some 0) 1]"
    by (simp add: heap_12_def)
  have nb: "block heap_12 1 = None" by (simp add: block_def heap_12_def)
  show ?thesis
    unfolding r1 r2 heap_of_def using invariant_12 a c t w big nb by (simp add: tr)
qed

text \<open>
  C3 (amended). For a container in a valid state and \<open>n > capacity()\<close> with
  \<open>2 * n\<close> within \<open>size_t\<close>, when the growth of \<open>Resize(n)\<close> has its new block
  and the default constructor of one of the new elements throws (for
  \<open>Resize(n, value)\<close>: the copy constructor), the call exits with that failure and
  the size, the capacity, the buffer and the elements of the container are as
  before. The new block is gone; the handler has released it with the old capacity
  as its count (the defect of C6), which is the one fault of the call.
\<close>

theorem C3_Resize_growth_constructor_throws:
  assumes "invariant h v" and "capacity_m v < n" and "n * 2 < 2 ^ 64"
    and "allocate E (size_t (n * 2)) h \<noteq> None"
  shows "((\<exists>i. size_m v \<le> i \<and> i < n \<and> default_throws E i) \<longrightarrow>
            raised (Resize E n v h) = Some ElementOperationFailure \<and>
            vec_of (Resize E n v h) = v \<and>
            Size (vec_of (Resize E n v h)) = Size v \<and>
            Capacity (vec_of (Resize E n v h)) = Capacity v \<and>
            elems (heap_of (Resize E n v h)) (vec_of (Resize E n v h)) = elems h v \<and>
            invariant (heap_of (Resize E n v h)) (vec_of (Resize E n v h)) \<and>
            block (heap_of (Resize E n v h)) (length (blocks h)) = None \<and>
            faults (heap_of (Resize E n v h)) =
              faults h @ [Deallocate (Some (length (blocks h))) (capacity_m v)]) \<and>
         ((\<exists>i. size_m v \<le> i \<and> i < n \<and> copy_throws E i val) \<longrightarrow>
            raised (Resize_value E n val v h) = Some ElementOperationFailure \<and>
            vec_of (Resize_value E n val v h) = v \<and>
            Size (vec_of (Resize_value E n val v h)) = Size v \<and>
            Capacity (vec_of (Resize_value E n val v h)) = Capacity v \<and>
            elems (heap_of (Resize_value E n val v h)) (vec_of (Resize_value E n val v h)) = elems h v \<and>
            invariant (heap_of (Resize_value E n val v h)) (vec_of (Resize_value E n val v h)) \<and>
            block (heap_of (Resize_value E n val v h)) (length (blocks h)) = None \<and>
            faults (heap_of (Resize_value E n val v h)) =
              faults h @ [Deallocate (Some (length (blocks h))) (capacity_m v)])"
proof (intro conjI impI)
  assume "\<exists>i. size_m v \<le> i \<and> i < n \<and> default_throws E i"
  then have th: "\<exists>i. size_m v \<le> i \<and> i < n \<and> default_ctor E i = None"
    by (auto simp: default_ctor_def)
  note L = Resize_with_ctor_throws [OF assms(1,2,4) th]
  note X = Resize_with_ctor_throws_exact [OF assms th]
  from L show "raised (Resize E n v h) = Some ElementOperationFailure"
    and "vec_of (Resize E n v h) = v"
    and "Size (vec_of (Resize E n v h)) = Size v"
    and "Capacity (vec_of (Resize E n v h)) = Capacity v"
    and "elems (heap_of (Resize E n v h)) (vec_of (Resize E n v h)) = elems h v"
    and "invariant (heap_of (Resize E n v h)) (vec_of (Resize E n v h))"
    by (simp_all add: Resize_def)
  from X show "block (heap_of (Resize E n v h)) (length (blocks h)) = None"
    and "faults (heap_of (Resize E n v h)) =
           faults h @ [Deallocate (Some (length (blocks h))) (capacity_m v)]"
    by (simp_all add: Resize_def)
next
  assume "\<exists>i. size_m v \<le> i \<and> i < n \<and> copy_throws E i val"
  then have th: "\<exists>i. size_m v \<le> i \<and> i < n \<and> copy_ctor E val i = None"
    by (auto simp: copy_ctor_def)
  note L = Resize_with_ctor_throws [OF assms(1,2,4) th]
  note X = Resize_with_ctor_throws_exact [OF assms th]
  from L show "raised (Resize_value E n val v h) = Some ElementOperationFailure"
    and "vec_of (Resize_value E n val v h) = v"
    and "Size (vec_of (Resize_value E n val v h)) = Size v"
    and "Capacity (vec_of (Resize_value E n val v h)) = Capacity v"
    and "elems (heap_of (Resize_value E n val v h)) (vec_of (Resize_value E n val v h)) = elems h v"
    and "invariant (heap_of (Resize_value E n val v h)) (vec_of (Resize_value E n val v h))"
    by (simp_all add: Resize_value_def)
  from X show "block (heap_of (Resize_value E n val v h)) (length (blocks h)) = None"
    and "faults (heap_of (Resize_value E n val v h)) =
           faults h @ [Deallocate (Some (length (blocks h))) (capacity_m v)]"
    by (simp_all add: Resize_value_def)
qed

theorem C3_Resize_growth_constructor_throws_witness:
  "invariant heap_12 vec_12 \<and> capacity_m vec_12 < 3 \<and> (3::nat) * 2 < 2 ^ 64 \<and>
   allocate fragile_env (size_t (3 * 2)) heap_12 \<noteq> None \<and>
   default_throws fragile_env 2 \<and> copy_throws fragile_env 2 7 \<and>
   raised (Resize fragile_env 3 vec_12 heap_12) = Some ElementOperationFailure \<and>
   vec_of (Resize fragile_env 3 vec_12 heap_12) = vec_12 \<and>
   elems (heap_of (Resize fragile_env 3 vec_12 heap_12)) (vec_of (Resize fragile_env 3 vec_12 heap_12)) =
     elems heap_12 vec_12 \<and>
   faults (heap_of (Resize fragile_env 3 vec_12 heap_12)) =
     faults heap_12 @ [Deallocate (Some (length (blocks heap_12))) (capacity_m vec_12)] \<and>
   raised (Resize_value fragile_env 3 7 vec_12 heap_12) = Some ElementOperationFailure \<and>
   vec_of (Resize_value fragile_env 3 7 vec_12 heap_12) = vec_12 \<and>
   elems (heap_of (Resize_value fragile_env 3 7 vec_12 heap_12))
         (vec_of (Resize_value fragile_env 3 7 vec_12 heap_12)) = elems heap_12 vec_12 \<and>
   faults (heap_of (Resize_value fragile_env 3 7 vec_12 heap_12)) =
     faults heap_12 @ [Deallocate (Some (length (blocks heap_12))) (capacity_m vec_12)]"
proof -
  have c: "capacity_m vec_12 < 3" by (simp add: vec_12_def)
  have s: "(3::nat) * 2 < 2 ^ 64" by simp
  have a: "allocate fragile_env (size_t (3 * 2)) heap_12 \<noteq> None"
    by (simp add: allocate_def size_t_def max_size_def fragile_env_def)
  have d: "default_throws fragile_env 2" "copy_throws fragile_env 2 7"
    by (simp_all add: fragile_env_def)
  have e1: "\<exists>i. size_m vec_12 \<le> i \<and> i < 3 \<and> default_throws fragile_env i"
    using d(1) by (intro exI [of _ 2]) (simp add: vec_12_def)
  have e2: "\<exists>i. size_m vec_12 \<le> i \<and> i < 3 \<and> copy_throws fragile_env i 7"
    using d(2) by (intro exI [of _ 2]) (simp add: vec_12_def)
  note t = C3_Resize_growth_constructor_throws [OF invariant_12 c s a, of 7]
  from t e1 have
    "raised (Resize fragile_env 3 vec_12 heap_12) = Some ElementOperationFailure \<and>
     vec_of (Resize fragile_env 3 vec_12 heap_12) = vec_12 \<and>
     elems (heap_of (Resize fragile_env 3 vec_12 heap_12)) (vec_of (Resize fragile_env 3 vec_12 heap_12)) =
       elems heap_12 vec_12 \<and>
     faults (heap_of (Resize fragile_env 3 vec_12 heap_12)) =
       faults heap_12 @ [Deallocate (Some (length (blocks heap_12))) (capacity_m vec_12)]"
    by blast
  moreover from t e2 have
    "raised (Resize_value fragile_env 3 7 vec_12 heap_12) = Some ElementOperationFailure \<and>
     vec_of (Resize_value fragile_env 3 7 vec_12 heap_12) = vec_12 \<and>
     elems (heap_of (Resize_value fragile_env 3 7 vec_12 heap_12))
         (vec_of (Resize_value fragile_env 3 7 vec_12 heap_12)) = elems heap_12 vec_12 \<and>
     faults (heap_of (Resize_value fragile_env 3 7 vec_12 heap_12)) =
       faults heap_12 @ [Deallocate (Some (length (blocks heap_12))) (capacity_m vec_12)]"
    by blast
  ultimately show ?thesis using invariant_12 c s a d by blast
qed

lemma construct_outside:
  "block h b = Some [] \<Longrightarrow>
   construct (Some b) i x h =
     h\<lparr>trace := trace h @ [Construct (Some b) i], faults := faults h @ [Construct (Some b) i]\<rparr>"
  by (simp add: construct_def called_def fault_def)

lemma construct_loop_outside:
  assumes "block h b = Some []" and "\<forall>i\<in>set is. mk i \<noteq> None"
  shows "construct_loop mk (Some b) is c h =
           (False, c + length is,
            h\<lparr>trace := trace h @ map (Construct (Some b)) is,
              faults := faults h @ map (Construct (Some b)) is\<rparr>)"
  using assms
proof (induction "is" arbitrary: c h)
  case Nil
  then show ?case by simp
next
  case (Cons i "is")
  from Cons.prems obtain x where x: "mk i = Some x" by auto
  let ?h1 = "construct (Some b) i x h"
  have h1: "?h1 = h\<lparr>trace := trace h @ [Construct (Some b) i],
                     faults := faults h @ [Construct (Some b) i]\<rparr>"
    using Cons.prems(1) by (rule construct_outside)
  have "blocks ?h1 = blocks h" by (simp add: h1)
  then have "block ?h1 b = block h b" by (rule block_blocks_cong)
  then have blk: "block ?h1 b = Some []"
    using Cons.prems(1) by simp
  have "construct_loop mk (Some b) is (Suc c) ?h1 =
          (False, Suc c + length is,
           ?h1\<lparr>trace := trace ?h1 @ map (Construct (Some b)) is,
               faults := faults ?h1 @ map (Construct (Some b)) is\<rparr>)"
    using Cons.prems by (intro Cons.IH [OF blk]) auto
  then show ?case by (simp add: x h1)
qed

lemma Resize_wraps:
  assumes "size_t (n * 2) = 0" and "0 < n"
  shows "trace (heap_of (Resize int_env n Vector_default empty_heap)) =
           Allocate 0 0 # map (Construct (Some 0)) [0..<n] @ [Deallocate None 0] \<and>
         faults (heap_of (Resize int_env n Vector_default empty_heap)) =
           map (Construct (Some 0)) [0..<n]"
proof -
  let ?v = "Vector_default" and ?mk = "default_ctor int_env"
  let ?h = "empty_heap :: int heap"
  let ?h1 = "\<lparr>blocks = [Some []], trace = [Allocate 0 0], faults = []\<rparr> :: int heap"
  have sz: "size_m ?v = 0" "capacity_m ?v = 0" "buffer_m ?v = None"
    by (simp_all add: Vector_default_def)
  have gt: "capacity_m ?v < n" "size_m ?v \<le> capacity_m ?v" using assms(2) sz by simp_all
  have a: "allocate int_env (size_t (n * 2)) ?h = Some (0, ?h1)"
    using assms(1) by (simp add: allocate_def int_env_def empty_heap_def called_def)
  have blk: "block ?h1 0 = Some []" by (simp add: block_def)
  have mk: "\<forall>i\<in>set [size_m ?v..<n]. ?mk i \<noteq> None"
    by (simp add: default_ctor_def int_env_def)
  let ?h2 = "?h1\<lparr>trace := trace ?h1 @ map (Construct (Some 0)) [size_m ?v..<n],
                 faults := faults ?h1 @ map (Construct (Some 0)) [size_m ?v..<n]\<rparr>"
  have c: "construct_loop ?mk (Some 0) [size_m ?v..<n] 0 ?h1 =
             (False, 0 + length [size_m ?v..<n], ?h2)"
    by (rule construct_loop_outside [OF blk mk])
  have m: "MoveIterTo int_env ?v (Some 0) ?h2 = (False, ?h2)"
    by (simp add: MoveIterTo_def sz)
  have rel: "release ?v g = g\<lparr>trace := trace g @ [Deallocate None 0]\<rparr>" for g :: "int heap"
    by (simp add: release_def sz destroy_loop_def deallocate_def called_def)
  from Resize_with_grow_unfold [OF gt a c m]
  have "Resize_with int_env ?mk n ?v ?h =
     (None, \<lparr>buffer_m = Some 0, size_m = n, capacity_m = size_t (n * 2)\<rparr>, release ?v ?h2)"
    by simp
  then show ?thesis
    using assms(1)
    by (simp add: Resize_def raised_def vec_of_def heap_of_def Size_def Capacity_def rel sz)
qed

lemma Resize_wraps_prefix:
  assumes "size_t (n * 2) = 0" and "0 < n"
  shows "take 2 (trace (heap_of (Resize int_env n Vector_default empty_heap))) =
           [Allocate 0 0, Construct (Some 0) 0] \<and>
         take 1 (faults (heap_of (Resize int_env n Vector_default empty_heap))) =
           [Construct (Some 0) 0]"
proof -
  have u: "[0..<n] = 0 # [Suc 0..<n]" using assms(2) by (simp add: upt_conv_Cons)
  from Resize_wraps [OF assms] show ?thesis by (simp add: u)
qed

lemma Resize_big_overflows:
  "faults (heap_of (Resize int_env (2 ^ 31 + 1) vec_big heap_big)) = [IntOverflow]"
proof -
  have c: "capacity_m vec_big < 2 ^ 31 + 1" by (simp add: vec_big_def)
  have "raised (Resize_with int_env (default_ctor int_env) (2 ^ 31 + 1) vec_big heap_big) = None"
    by (rule Resize_with_returns [OF invariant_big c])
       (simp_all add: max_size_def int_env_def default_ctor_def)
  then obtain v' h' where
    e: "Resize_with int_env (default_ctor int_env) (2 ^ 31 + 1) vec_big heap_big = (None, v', h')"
    by (cases "Resize_with int_env (default_ctor int_env) (2 ^ 31 + 1) vec_big heap_big")
       (auto simp: raised_def)
  have s: "((2::nat) ^ 31 + 1) * 2 < 2 ^ 64" by simp
  from Resize_with_grow_ok [OF invariant_big c s e]
  have "faults h' = faults heap_big @ (if int_max < size_m vec_big then [IntOverflow] else [])"
    by blast
  moreover have "faults heap_big = []" by (simp add: heap_big_def)
  moreover have "int_max < size_m vec_big" by (simp add: int_max_def vec_big_def)
  ultimately show ?thesis unfolding Resize_def e heap_of_def by simp
qed

text \<open>
  C4 as stated fails in two places. Where \<open>size * 2\<close> wraps: \<open>Resize(2^63)\<close> on an
  empty \<open>Vector<int>\<close> asks the allocator for 0 slots, not \<open>2^64\<close>, and its first
  construction is already outside that block. Where the container has more than
  \<open>INT_MAX\<close> elements: on a \<open>Vector<int>\<close> of \<open>2^31\<close> elements, the migration of
  \<open>Resize(2^31 + 1)\<close> overflows the \<open>int\<close> counter of \<open>MoveIterTo\<close>.
\<close>

theorem C4_Resize_doubling_wraps:
  "size_t (2 ^ 63 * 2) = 0 \<and>
   take 2 (trace (heap_of (Resize int_env (2 ^ 63) Vector_default empty_heap))) =
     [Allocate 0 0, Construct (Some 0) 0] \<and>
   take 1 (faults (heap_of (Resize int_env (2 ^ 63) Vector_default empty_heap))) =
     [Construct (Some 0) 0] \<and>
   Vector_size int_env (2 ^ 31) empty_heap = (None, vec_big, heap_big) \<and>
   capacity_m vec_big < 2 ^ 31 + 1 \<and> ((2::nat) ^ 31 + 1) * 2 < 2 ^ 64 \<and>
   int_max < size_m vec_big \<and>
   faults (heap_of (Resize int_env (2 ^ 31 + 1) vec_big heap_big)) = [IntOverflow]"
proof -
  have w: "size_t (2 ^ 63 * 2) = 0" by (simp add: size_t_def)
  have p: "(0::nat) < 2 ^ 63" by simp
  note a = Resize_wraps_prefix [OF w p]
  have b: "capacity_m vec_big < 2 ^ 31 + 1" "((2::nat) ^ 31 + 1) * 2 < 2 ^ 64"
    "int_max < size_m vec_big"
    by (simp_all add: vec_big_def int_max_def)
  show ?thesis
    using a w b Vector_size_big Resize_big_overflows by blast
qed

lemma map_const_upt:
  "\<forall>i\<in>set [a..<b]. f i = c \<Longrightarrow> map f [a..<b] = replicate (b - a) c"
  by (rule nth_equalityI) auto

lemma Resize_12_int: "Resize int_env 3 vec_12 heap_12 = (None, vec_r3, heap_r3)"
  by (simp add: Resize_def Resize_with_def default_ctor_def int_env_def MoveIterTo_def
      release_def destroy_loop_def heap_prims heap_12_def vec_12_def vec_r3_def heap_r3_def
      eval_lists)

lemma Resize_value_12_int: "Resize_value int_env 3 7 vec_12 heap_12 = (None, vec_r3, heap_r3v)"
  by (simp add: Resize_value_def Resize_with_def copy_ctor_def int_env_def MoveIterTo_def
      release_def destroy_loop_def heap_prims heap_12_def vec_12_def vec_r3_def heap_r3v_def
      eval_lists)

text \<open>
  C4 (amended). For a container in a valid state with at most \<open>INT_MAX\<close> elements and
  \<open>n > capacity()\<close> with \<open>2 * n\<close> within \<open>size_t\<close>, a \<open>Resize(n)\<close> (or
  \<open>Resize(n, value)\<close>) that returns has allocated one block of \<open>2 * n\<close> slots, then
  constructed the new elements at \<open>size .. n - 1\<close> of it, then move-constructed the
  old elements at \<open>0 .. size - 1\<close>, then destroyed the old elements and released
  the old block, with no undefined behaviour; the container has the new block, size
  \<open>n\<close>, capacity \<open>2 * n\<close>, and its elements are the old ones followed by
  \<open>n - size\<close> default-constructed ones (copies of \<open>value\<close>). The call returns
  whenever the allocator grants the \<open>2 * n\<close> slots and no constructor throws.
\<close>

theorem C4_Resize_growth:
  assumes "invariant h v" and "size_m v \<le> int_max" and "capacity_m v < n" and "n * 2 < 2 ^ 64"
  shows "(raised (Resize E n v h) = None \<longrightarrow>
            vec_of (Resize E n v h) =
              \<lparr>buffer_m = Some (length (blocks h)), size_m = n, capacity_m = 2 * n\<rparr> \<and>
            trace (heap_of (Resize E n v h)) =
              trace h @ [Allocate (length (blocks h)) (2 * n)] @
              map (Construct (Some (length (blocks h)))) [size_m v..<n] @
              map (Construct (Some (length (blocks h)))) [0..<size_m v] @
              map (Destroy (buffer_m v)) [0..<size_m v] @
              [Deallocate (buffer_m v) (capacity_m v)] \<and>
            elems (heap_of (Resize E n v h)) (vec_of (Resize E n v h)) =
              elems h v @ replicate (n - size_m v) (Some (default_value E)) \<and>
            invariant (heap_of (Resize E n v h)) (vec_of (Resize E n v h)) \<and>
            (\<forall>b. buffer_m v = Some b \<longrightarrow> block (heap_of (Resize E n v h)) b = None) \<and>
            faults (heap_of (Resize E n v h)) = faults h) \<and>
         (raised (Resize_value E n val v h) = None \<longrightarrow>
            vec_of (Resize_value E n val v h) =
              \<lparr>buffer_m = Some (length (blocks h)), size_m = n, capacity_m = 2 * n\<rparr> \<and>
            trace (heap_of (Resize_value E n val v h)) =
              trace h @ [Allocate (length (blocks h)) (2 * n)] @
              map (Construct (Some (length (blocks h)))) [size_m v..<n] @
              map (Construct (Some (length (blocks h)))) [0..<size_m v] @
              map (Destroy (buffer_m v)) [0..<size_m v] @
              [Deallocate (buffer_m v) (capacity_m v)] \<and>
            elems (heap_of (Resize_value E n val v h)) (vec_of (Resize_value E n val v h)) =
              elems h v @ replicate (n - size_m v) (Some val) \<and>
            invariant (heap_of (Resize_value E n val v h)) (vec_of (Resize_value E n val v h)) \<and>
            (\<forall>b. buffer_m v = Some b \<longrightarrow> block (heap_of (Resize_value E n val v h)) b = None) \<and>
            faults (heap_of (Resize_value E n val v h)) = faults h) \<and>
         (2 * n \<le> max_size \<and> \<not> alloc_fails E (2 * n) \<and> (\<forall>i x. \<not> move_throws E i x) \<longrightarrow>
            ((\<forall>i. \<not> default_throws E i) \<longrightarrow> raised (Resize E n v h) = None) \<and>
            ((\<forall>i. \<not> copy_throws E i val) \<longrightarrow> raised (Resize_value E n val v h) = None))"
proof (intro conjI impI)
  assume ok: "raised (Resize E n v h) = None"
  then obtain v' h' where r: "Resize_with E (default_ctor E) n v h = (None, v', h')"
    by (cases "Resize E n v h") (auto simp: raised_def Resize_def)
  note L = Resize_with_grow_ok [OF assms(1,3,4) r]
  from L have "\<forall>i\<in>set [size_m v..<n]. default_ctor E i = Some (default_value E)"
    by (auto simp: default_ctor_def split: if_splits)
  then have m: "map (default_ctor E) [size_m v..<n] = replicate (n - size_m v) (Some (default_value E))"
    by (rule map_const_upt)
  have eq: "Resize E n v h = (None, v', h')" using r by (simp add: Resize_def)
  from L show "vec_of (Resize E n v h) =
              \<lparr>buffer_m = Some (length (blocks h)), size_m = n, capacity_m = 2 * n\<rparr>"
    by (simp add: eq vec_of_def)
  from L show "trace (heap_of (Resize E n v h)) =
              trace h @ [Allocate (length (blocks h)) (2 * n)] @
              map (Construct (Some (length (blocks h)))) [size_m v..<n] @
              map (Construct (Some (length (blocks h)))) [0..<size_m v] @
              map (Destroy (buffer_m v)) [0..<size_m v] @
              [Deallocate (buffer_m v) (capacity_m v)]"
    by (simp add: eq heap_of_def)
  from L have "elems h' v' = elems h v @ map (default_ctor E) [size_m v..<n]" by blast
  then show "elems (heap_of (Resize E n v h)) (vec_of (Resize E n v h)) =
              elems h v @ replicate (n - size_m v) (Some (default_value E))"
    by (simp only: eq heap_of_def vec_of_def fst_conv snd_conv m)
  from L have "invariant h' v'" by blast
  then show "invariant (heap_of (Resize E n v h)) (vec_of (Resize E n v h))"
    by (simp only: eq heap_of_def vec_of_def fst_conv snd_conv)
  from L show "\<forall>b. buffer_m v = Some b \<longrightarrow> block (heap_of (Resize E n v h)) b = None"
    by (simp add: eq heap_of_def)
  from L assms(2) show "faults (heap_of (Resize E n v h)) = faults h"
    by (simp add: eq heap_of_def)
next
  assume ok: "raised (Resize_value E n val v h) = None"
  then obtain v' h' where r: "Resize_with E (copy_ctor E val) n v h = (None, v', h')"
    by (cases "Resize_value E n val v h") (auto simp: raised_def Resize_value_def)
  note L = Resize_with_grow_ok [OF assms(1,3,4) r]
  from L have "\<forall>i\<in>set [size_m v..<n]. copy_ctor E val i = Some val"
    by (auto simp: copy_ctor_def split: if_splits)
  then have m: "map (copy_ctor E val) [size_m v..<n] = replicate (n - size_m v) (Some val)"
    by (rule map_const_upt)
  have eq: "Resize_value E n val v h = (None, v', h')" using r by (simp add: Resize_value_def)
  from L show "vec_of (Resize_value E n val v h) =
              \<lparr>buffer_m = Some (length (blocks h)), size_m = n, capacity_m = 2 * n\<rparr>"
    by (simp add: eq vec_of_def)
  from L show "trace (heap_of (Resize_value E n val v h)) =
              trace h @ [Allocate (length (blocks h)) (2 * n)] @
              map (Construct (Some (length (blocks h)))) [size_m v..<n] @
              map (Construct (Some (length (blocks h)))) [0..<size_m v] @
              map (Destroy (buffer_m v)) [0..<size_m v] @
              [Deallocate (buffer_m v) (capacity_m v)]"
    by (simp add: eq heap_of_def)
  from L have "elems h' v' = elems h v @ map (copy_ctor E val) [size_m v..<n]" by blast
  then show "elems (heap_of (Resize_value E n val v h)) (vec_of (Resize_value E n val v h)) =
              elems h v @ replicate (n - size_m v) (Some val)"
    by (simp only: eq heap_of_def vec_of_def fst_conv snd_conv m)
  from L have "invariant h' v'" by blast
  then show "invariant (heap_of (Resize_value E n val v h)) (vec_of (Resize_value E n val v h))"
    by (simp only: eq heap_of_def vec_of_def fst_conv snd_conv)
  from L show "\<forall>b. buffer_m v = Some b \<longrightarrow> block (heap_of (Resize_value E n val v h)) b = None"
    by (simp add: eq heap_of_def)
  from L assms(2) show "faults (heap_of (Resize_value E n val v h)) = faults h"
    by (simp add: eq heap_of_def)
next
  assume a: "2 * n \<le> max_size \<and> \<not> alloc_fails E (2 * n) \<and> (\<forall>i x. \<not> move_throws E i x)"
    and d: "\<forall>i. \<not> default_throws E i"
  show "raised (Resize E n v h) = None"
    unfolding Resize_def using a d
    by (intro Resize_with_returns [OF assms(1,3)]) (simp_all add: mult.commute default_ctor_def)
next
  assume a: "2 * n \<le> max_size \<and> \<not> alloc_fails E (2 * n) \<and> (\<forall>i x. \<not> move_throws E i x)"
    and d: "\<forall>i. \<not> copy_throws E i val"
  show "raised (Resize_value E n val v h) = None"
    unfolding Resize_value_def using a d
    by (intro Resize_with_returns [OF assms(1,3)]) (simp_all add: mult.commute copy_ctor_def)
qed

theorem C4_Resize_growth_witness:
  "invariant heap_12 vec_12 \<and> size_m vec_12 \<le> int_max \<and> capacity_m vec_12 < 3 \<and>
   (3::nat) * 2 < 2 ^ 64 \<and>
   raised (Resize int_env 3 vec_12 heap_12) = None \<and>
   raised (Resize_value int_env 3 7 vec_12 heap_12) = None \<and>
   vec_of (Resize int_env 3 vec_12 heap_12) =
     \<lparr>buffer_m = Some (length (blocks heap_12)), size_m = 3, capacity_m = 2 * 3\<rparr> \<and>
   elems (heap_of (Resize int_env 3 vec_12 heap_12)) (vec_of (Resize int_env 3 vec_12 heap_12)) =
     elems heap_12 vec_12 @ replicate (3 - size_m vec_12) (Some (default_value int_env)) \<and>
   elems (heap_of (Resize_value int_env 3 7 vec_12 heap_12))
         (vec_of (Resize_value int_env 3 7 vec_12 heap_12)) =
     elems heap_12 vec_12 @ replicate (3 - size_m vec_12) (Some 7) \<and>
   faults (heap_of (Resize int_env 3 vec_12 heap_12)) = faults heap_12 \<and>
   faults (heap_of (Resize_value int_env 3 7 vec_12 heap_12)) = faults heap_12"
proof -
  have c: "capacity_m vec_12 < 3" by (simp add: vec_12_def)
  have i: "size_m vec_12 \<le> int_max" by (simp add: vec_12_def int_max_def)
  have s: "(3::nat) * 2 < 2 ^ 64" by simp
  have r1: "raised (Resize int_env 3 vec_12 heap_12) = None"
    by (simp only: Resize_12_int raised_def fst_conv)
  have r2: "raised (Resize_value int_env 3 7 vec_12 heap_12) = None"
    by (simp only: Resize_value_12_int raised_def fst_conv)
  note t = C4_Resize_growth [OF invariant_12 i c s, of int_env 7]
  from t r1 have "vec_of (Resize int_env 3 vec_12 heap_12) =
     \<lparr>buffer_m = Some (length (blocks heap_12)), size_m = 3, capacity_m = 2 * 3\<rparr>"
    and "elems (heap_of (Resize int_env 3 vec_12 heap_12)) (vec_of (Resize int_env 3 vec_12 heap_12)) =
     elems heap_12 vec_12 @ replicate (3 - size_m vec_12) (Some (default_value int_env))"
    and "faults (heap_of (Resize int_env 3 vec_12 heap_12)) = faults heap_12"
    by blast+
  moreover from t r2 have "elems (heap_of (Resize_value int_env 3 7 vec_12 heap_12))
         (vec_of (Resize_value int_env 3 7 vec_12 heap_12)) =
     elems heap_12 vec_12 @ replicate (3 - size_m vec_12) (Some 7)"
    and "faults (heap_of (Resize_value int_env 3 7 vec_12 heap_12)) = faults heap_12"
    by blast+
  ultimately show ?thesis using invariant_12 i c s r1 r2 by blast
qed

section \<open>Move construction and move assignment\<close>

lemma block_release_other:
  "buffer_m v \<noteq> Some b \<Longrightarrow> block (release v h) b = block h b"
  by (simp add: release_def block_deallocate_other block_destroy_loop_other)

lemma invariant_Vector_default: "invariant h Vector_default"
  by (simp add: invariant_def Vector_default_def)

lemma vec_eta:
  "\<lparr>buffer_m = buffer_m v, size_m = size_m v, capacity_m = capacity_m v\<rparr> = v"
  by (cases v) simp

lemma assign_move_distinct:
  "this \<noteq> other \<Longrightarrow>
   assign_move this other st h =
     (st(other := Vector_default, this := st other), Vector_dtor (st this) h)"
  by (simp add: assign_move_def Vector_move_def Swap_def Vector_default_def vec_eta)

lemma trace_fold_destroy: "trace (fold (destroy p) is h) = trace h @ map (Destroy p) is"
  by (induction "is" arbitrary: h)
     (auto simp: destroy_def called_def fault_def split: option.splits)

lemma trace_release:
  "trace (release v h) =
     trace h @ map (Destroy (buffer_m v)) [0..<size_m v] @
     [Deallocate (buffer_m v) (capacity_m v)]"
  by (simp add: release_def destroy_loop_def trace_fold_destroy)
     (simp add: deallocate_def called_def fault_def trace_fold_destroy split: option.splits)

lemma faults_release:
  assumes "invariant h v"
  shows "faults (release v h) = faults h"
proof (cases "buffer_m v")
  case None
  with assms have "size_m v = 0" by (simp add: invariant_NoneD)
  then show ?thesis
    by (simp add: release_def None destroy_loop_def deallocate_def called_def)
next
  case (Some b)
  from invariant_SomeD [OF assms Some] obtain ss where ss: "block h b = Some ss"
      "length ss = capacity_m v" "size_m v \<le> capacity_m v" "\<forall>i<size_m v. ss ! i \<noteq> None"
    by blast
  have bl: "b < length (blocks h)" using ss(1) by (simp add: block_def split: if_splits)
  let ?h4 = "destroy_loop (Some b) 0 (size_m v) h"
  have h4: "?h4 = h\<lparr>blocks := (blocks h)[b := Some (fold (\<lambda>i s. s[i := None]) [0..<size_m v] ss)],
                     trace := trace h @ map (Destroy (Some b)) [0..<size_m v]\<rparr>"
    using ss by (intro destroy_loop_ok) auto
  have blk4: "block ?h4 b = Some (fold (\<lambda>i s. s[i := None]) [0..<size_m v] ss)"
    using bl by (simp add: h4 block_def)
  have "release v h = ?h4\<lparr>blocks := (blocks ?h4)[b := None],
                       trace := trace ?h4 @ [Deallocate (Some b) (capacity_m v)]\<rparr>"
    unfolding release_def Some using ss(2) by (intro deallocate_ok [OF blk4]) simp
  then show ?thesis by (simp add: h4)
qed

lemma assign_move_self: "assign_move this this st h = (st, h)"
  by (simp add: assign_move_def)

text \<open>
  C9. Move construction from \<open>v\<close> gives the new object the buffer, size and capacity
  of \<open>v\<close>, so it holds exactly the former elements of \<open>v\<close> at their addresses, and
  leaves \<open>v\<close> with a null buffer, size 0 and capacity 0: a valid state, whose
  destruction only passes the null pointer to \<open>deallocate\<close>. It is an exchange of
  the three fields: it has no failing branch and calls no allocator primitive,
  whatever the number of elements. Move assignment from \<open>other\<close> to another object
  \<open>this\<close> does the same for \<open>this\<close>; the only allocator calls it makes destroy and
  release the former contents of \<open>this\<close>, none touches an element of \<open>other\<close>,
  and when the two objects did not share a block \<open>this\<close> then holds exactly the
  former elements of \<open>other\<close>.
\<close>

theorem C9_move_transfers_ownership:
  "fst (Vector_move v) = v \<and> snd (Vector_move v) = Vector_default \<and>
   Data (fst (Vector_move v)) = Data v \<and>
   elems h (fst (Vector_move v)) = elems h v \<and>
   Empty (snd (Vector_move v)) \<and> Data (snd (Vector_move v)) = None \<and>
   Size (snd (Vector_move v)) = 0 \<and> Capacity (snd (Vector_move v)) = 0 \<and>
   valid h (snd (Vector_move v)) \<and>
   Vector_dtor (snd (Vector_move v)) h = called (Deallocate None 0) h \<and>
   (this \<noteq> other \<longrightarrow>
      fst (assign_move this other st h) this = st other \<and>
      fst (assign_move this other st h) other = Vector_default \<and>
      valid (snd (assign_move this other st h)) (fst (assign_move this other st h) other) \<and>
      snd (assign_move this other st h) = Vector_dtor (st this) h \<and>
      trace (snd (assign_move this other st h)) =
        trace h @ map (Destroy (buffer_m (st this))) [0..<size_m (st this)] @
        [Deallocate (buffer_m (st this)) (capacity_m (st this))] \<and>
      (invariant h (st this) \<longrightarrow> faults (snd (assign_move this other st h)) = faults h) \<and>
      ((\<forall>b. buffer_m (st other) = Some b \<longrightarrow> buffer_m (st this) \<noteq> Some b) \<longrightarrow>
         elems (snd (assign_move this other st h)) (fst (assign_move this other st h) this) =
           elems h (st other) \<and>
         (invariant h (st other) \<longrightarrow>
            invariant (snd (assign_move this other st h)) (fst (assign_move this other st h) this))))"
proof -
  have mv: "fst (Vector_move v) = v" "snd (Vector_move v) = Vector_default"
    by (simp_all add: Vector_move_def Vector_default_def vec_eta)
  have asg: "fst (assign_move this other st h) this = st other \<and>
      fst (assign_move this other st h) other = Vector_default \<and>
      valid (snd (assign_move this other st h)) (fst (assign_move this other st h) other) \<and>
      snd (assign_move this other st h) = Vector_dtor (st this) h \<and>
      trace (snd (assign_move this other st h)) =
        trace h @ map (Destroy (buffer_m (st this))) [0..<size_m (st this)] @
        [Deallocate (buffer_m (st this)) (capacity_m (st this))] \<and>
      (invariant h (st this) \<longrightarrow> faults (snd (assign_move this other st h)) = faults h) \<and>
      ((\<forall>b. buffer_m (st other) = Some b \<longrightarrow> buffer_m (st this) \<noteq> Some b) \<longrightarrow>
         elems (snd (assign_move this other st h)) (fst (assign_move this other st h) this) =
           elems h (st other) \<and>
         (invariant h (st other) \<longrightarrow>
            invariant (snd (assign_move this other st h)) (fst (assign_move this other st h) this)))"
    if ne: "this \<noteq> other"
  proof -
    note a = assign_move_distinct [OF ne, of st h]
    have frame: "block (Vector_dtor (st this) h) b = block h b"
      if "\<forall>b. buffer_m (st other) = Some b \<longrightarrow> buffer_m (st this) \<noteq> Some b"
        and "buffer_m (st other) = Some b" for b
      using that by (simp add: Vector_dtor_def block_release_other)
    have "elems (Vector_dtor (st this) h) (st other) = elems h (st other)"
      if d: "\<forall>b. buffer_m (st other) = Some b \<longrightarrow> buffer_m (st this) \<noteq> Some b"
      by (rule elems_frame) (rule frame [OF d])
    moreover have "invariant (Vector_dtor (st this) h) (st other) = invariant h (st other)"
      if d: "\<forall>b. buffer_m (st other) = Some b \<longrightarrow> buffer_m (st this) \<noteq> Some b"
      by (rule invariant_frame) (rule frame [OF d])
    moreover have "trace (Vector_dtor (st this) h) =
        trace h @ map (Destroy (buffer_m (st this))) [0..<size_m (st this)] @
        [Deallocate (buffer_m (st this)) (capacity_m (st this))]"
      by (simp add: Vector_dtor_def trace_release)
    moreover have "faults (Vector_dtor (st this) h) = faults h" if "invariant h (st this)"
      using that by (simp add: Vector_dtor_def faults_release)
    ultimately show ?thesis
      using ne by (simp add: a valid_Vector_default)
  qed
  have part1: "fst (Vector_move v) = v \<and> snd (Vector_move v) = Vector_default \<and>
     Data (fst (Vector_move v)) = Data v \<and>
     elems h (fst (Vector_move v)) = elems h v \<and>
     Empty (snd (Vector_move v)) \<and> Data (snd (Vector_move v)) = None \<and>
     Size (snd (Vector_move v)) = 0 \<and> Capacity (snd (Vector_move v)) = 0 \<and>
     valid h (snd (Vector_move v)) \<and>
     Vector_dtor (snd (Vector_move v)) h = called (Deallocate None 0) h"
    by (simp add: mv valid_Vector_default)
       (simp add: Empty_def Data_def Size_def Capacity_def Vector_default_def Vector_dtor_def
          release_def destroy_loop_def deallocate_def)
  show ?thesis
    using part1 asg by blast
qed

theorem C9_move_transfers_ownership_witness:
  "(1::nat) \<noteq> 0 \<and>
   buffer_m (store_two 0) = Some 0 \<and> buffer_m (store_two 1) = Some 1 \<and>
   invariant heap_54322 (store_two 0) \<and> invariant heap_54322 (store_two 1) \<and>
   fst (assign_move 1 0 store_two heap_54322) 1 = vec_54321 \<and>
   fst (assign_move 1 0 store_two heap_54322) 0 = Vector_default \<and>
   elems (snd (assign_move 1 0 store_two heap_54322)) (fst (assign_move 1 0 store_two heap_54322) 1) =
     map Some [5, 4, 3, 2, 1] \<and>
   invariant (snd (assign_move 1 0 store_two heap_54322)) (fst (assign_move 1 0 store_two heap_54322) 1) \<and>
   faults (snd (assign_move 1 0 store_two heap_54322)) = []"
proof -
  have ne: "(1::nat) \<noteq> 0" by simp
  have s: "store_two 0 = vec_54321" "store_two 1 = vec_54322" by (simp_all add: store_two_def)
  have d: "\<forall>b. buffer_m (store_two 0) = Some b \<longrightarrow> buffer_m (store_two 1) \<noteq> Some b"
    by (simp add: store_two_def vec_54321_def vec_54322_def)
  have i: "invariant heap_54322 (store_two 0)" "invariant heap_54322 (store_two 1)"
    by (simp_all add: store_two_def invariant_def vec_54321_def vec_54322_def heap_54322_def
        block_def)
  have f: "faults heap_54322 = []" by (simp add: heap_54322_def)
  note t = C9_move_transfers_ownership
    [where this = 1 and other = 0 and st = store_two and h = heap_54322 and v = vec_54321]
  from t ne d i have
    "fst (assign_move 1 0 store_two heap_54322) 1 = store_two 0"
    "fst (assign_move 1 0 store_two heap_54322) 0 = Vector_default"
    "elems (snd (assign_move 1 0 store_two heap_54322)) (fst (assign_move 1 0 store_two heap_54322) 1) =
       elems heap_54322 (store_two 0)"
    "invariant (snd (assign_move 1 0 store_two heap_54322)) (fst (assign_move 1 0 store_two heap_54322) 1)"
    "faults (snd (assign_move 1 0 store_two heap_54322)) = faults heap_54322"
    by blast+
  moreover have "buffer_m (store_two 0) = Some 0" "buffer_m (store_two 1) = Some 1"
    by (simp_all add: store_two_def vec_54321_def vec_54322_def)
  ultimately show ?thesis using ne i f by (simp only: s(1) elems_54321 simp_thms)
qed

end
